theory Spec2Isabelle
  imports Complex_Main "HOL-Library.Word" "HOL-Library.Char_ord" "HOL-Library.List_Lexorder"
    "HOL-Library.Multiset"
begin

unbundle bit_operations_syntax

section \<open>The safetensors reader of qwen-asr (qwen\_asr\_safetensors.c)\<close>

text \<open>
  The development embeds the POSIX build of the reader: the minimal JSON header parser,
  \<^verbatim>\<open>safetensors_open\<close>/\<^verbatim>\<open>safetensors_close\<close>, the BF16 widening and the multi-shard
  operations.

  Representation choices, fixed here once:
  \<^item> A byte is a \<^typ>\<open>char\<close> (8 bits); a file is the list of its bytes.
  \<^item> A cursor \<^verbatim>\<open>const char **p\<close> into the NUL-terminated header buffer is the list of
    the bytes from the cursor to the end of the header; the terminating NUL that
    \<^verbatim>\<open>safetensors_open\<close> writes sits just behind the last element. A NUL byte inside
    the header is an element of the list, and every test \<^verbatim>\<open>**p\<close> of the source reads it
    as the end of the text, exactly as the source does.
  \<^item> \<^verbatim>\<open>size_t\<close>, \<^verbatim>\<open>uint64_t\<close> and \<^verbatim>\<open>int64_t\<close> are \<^typ>\<open>64 word\<close>; \<^verbatim>\<open>int\<close> counters that
    a text can drive arbitrarily high are \<^typ>\<open>32 word\<close>. Signed overflow, undefined in
    ISO C, is modelled as the two's complement wrap-around the usual compilers emit.
  \<^item> The C functions report every failure as \<^verbatim>\<open>NULL\<close> or \<^verbatim>\<open>-1\<close>. The model tags each
    failing return with the name the design document gives that condition.
\<close>

subsection \<open>Characters and C strings\<close>

abbreviation NUL :: char where "NUL \<equiv> CHR 0x00"
abbreviation DQUOTE :: char where "DQUOTE \<equiv> CHR 0x22"
abbreviation BSLASH :: char where "BSLASH \<equiv> CHR 0x5C"

text \<open>The byte under the cursor: \<^verbatim>\<open>**p\<close>. Behind the last byte stands the terminator.\<close>

fun cur :: "string \<Rightarrow> char" where
  "cur [] = NUL"
| "cur (c # p) = c"

text \<open>The C string held in a buffer: its bytes up to the first NUL.\<close>

definition cstr :: "string \<Rightarrow> string" where
  "cstr buf = takeWhile (\<lambda>c. c \<noteq> NUL) buf"

text \<open>
  \<^verbatim>\<open>strcmp\<close> on two C strings given by their contents. ISO C fixes the sign of the
  result only; bytes compare as \<^verbatim>\<open>unsigned char\<close>.
\<close>

fun strcmp :: "string \<Rightarrow> string \<Rightarrow> int" where
  "strcmp [] [] = 0"
| "strcmp [] (b # bs) = -1"
| "strcmp (a # as) [] = 1"
| "strcmp (a # as) (b # bs) =
     (if a = b then strcmp as bs
      else if (of_char a :: nat) < of_char b then -1 else 1)"

text \<open>\<^verbatim>\<open>snprintf(buf, size, "%s", s)\<close>: at most \<^verbatim>\<open>size - 1\<close> bytes are stored.\<close>

definition snprintf :: "nat \<Rightarrow> string \<Rightarrow> string" where
  "snprintf sz s = take (sz - 1) s"

subsection \<open>Errors and the data model\<close>

datatype error =
    IOError          \<comment> \<open>path missing or unreadable, file shorter than the length prefix\<close>
  | FormatError      \<comment> \<open>\<^verbatim>\<open>return -1\<close> of the header parser\<close>
  | BoundsError      \<comment> \<open>declared header length beyond the file\<close>
  | NotFoundError    \<comment> \<open>no shard file in the directory\<close>
  | ReadPastEnd      \<comment> \<open>the cursor moves behind the terminating NUL: undefined in C\<close>

datatype safetensor_dtype_t =
  DTYPE_F32 | DTYPE_F16 | DTYPE_BF16 | DTYPE_I32 | DTYPE_I64 | DTYPE_BOOL | DTYPE_UNKNOWN

text \<open>
  \<^verbatim>\<open>safetensor_t\<close>. The field \<open>shape\<close> holds the first \<^verbatim>\<open>ndim\<close> slots of the C array
  \<^verbatim>\<open>shape[8]\<close>, so \<^verbatim>\<open>ndim\<close> is its length.
\<close>

record safetensor_t =
  name :: string
  dtype :: safetensor_dtype_t
  shape :: "64 word list"
  data_offset :: "64 word"
  data_size :: "64 word"

definition ndim :: "safetensor_t \<Rightarrow> nat" where
  "ndim t = length (shape t)"

subsection \<open>Minimal JSON parser for the header\<close>

definition is_space :: "char \<Rightarrow> bool" where
  "is_space c \<longleftrightarrow> c = CHR '' '' \<or> c = CHR 0x0A \<or> c = CHR 0x0D \<or> c = CHR 0x09"

definition skip_whitespace :: "string \<Rightarrow> string" where
  "skip_whitespace p = dropWhile is_space p"

text \<open>The escapes \<^verbatim>\<open>parse_string\<close> decodes; every other escaped byte stands for itself.\<close>

definition unescape :: "char \<Rightarrow> char" where
  "unescape e = (if e = CHR ''n'' then CHR 0x0A else if e = CHR ''t'' then CHR 0x09 else e)"

text \<open>
  The loop of \<^verbatim>\<open>parse_string\<close> behind the opening quote, with \<open>out\<close> the bytes stored
  so far (\<^verbatim>\<open>i = length out\<close>). A backslash in front of the terminator stores the NUL and
  then steps behind it.
\<close>

fun string_body :: "nat \<Rightarrow> string \<Rightarrow> string \<Rightarrow> error + (string \<times> string)" where
  "string_body max_len out [] = Inl FormatError"
| "string_body max_len out (c # p) =
     (if c = NUL then Inl FormatError
      else if c = DQUOTE then Inr (cstr out, p)
      else if \<not> length out < max_len - 1 then Inl FormatError
      else if c = BSLASH then
        (case p of
           [] \<Rightarrow> Inl ReadPastEnd
         | e # p' \<Rightarrow> string_body max_len (out @ [unescape e]) p')
      else string_body max_len (out @ [c]) p)"

definition parse_string :: "string \<Rightarrow> nat \<Rightarrow> error + (string \<times> string)" where
  "parse_string p max_len =
     (case skip_whitespace p of
        [] \<Rightarrow> Inl FormatError
      | c # p' \<Rightarrow> if c \<noteq> DQUOTE then Inl FormatError else string_body max_len [] p')"

definition is_digit :: "char \<Rightarrow> bool" where
  "is_digit c \<longleftrightarrow> (of_char c :: nat) \<ge> 0x30 \<and> (of_char c :: nat) \<le> 0x39"

fun digits :: "64 word \<Rightarrow> string \<Rightarrow> 64 word \<times> string" where
  "digits val [] = (val, [])"
| "digits val (c # p) =
     (if is_digit c then digits (val * 10 + (of_char c - 0x30)) p else (val, c # p))"

definition parse_int :: "string \<Rightarrow> 64 word \<times> string" where
  "parse_int p =
     (let p1 = skip_whitespace p;
          neg = (cur p1 = CHR ''-'');
          p2 = (if neg then tl p1 else p1);
          (val, p3) = digits 0 p2
      in (if neg then - val else val, p3))"

definition parse_dtype :: "string \<Rightarrow> safetensor_dtype_t" where
  "parse_dtype s =
     (if strcmp s ''F32'' = 0 then DTYPE_F32
      else if strcmp s ''F16'' = 0 then DTYPE_F16
      else if strcmp s ''BF16'' = 0 then DTYPE_BF16
      else if strcmp s ''I32'' = 0 then DTYPE_I32
      else if strcmp s ''I64'' = 0 then DTYPE_I64
      else if strcmp s ''BOOL'' = 0 then DTYPE_BOOL
      else DTYPE_UNKNOWN)"

text \<open>\<^verbatim>\<open>if (**p == c) (*p)++;\<close>\<close>

definition accept :: "char \<Rightarrow> string \<Rightarrow> string" where
  "accept c p = (if cur p = c then tl p else p)"

text \<open>
  The loop that reads the \<^verbatim>\<open>shape\<close> array, entered behind the opening bracket with
  \<^verbatim>\<open>ndim = 0\<close>. It stops at the end of the text, at a closing bracket or once eight
  dimensions are stored, wherever the cursor then stands.
\<close>

function shape_loop :: "64 word list \<Rightarrow> string \<Rightarrow> 64 word list \<times> string" where
  "shape_loop shp p =
     (if cur p \<noteq> NUL \<and> cur p \<noteq> CHR '']'' \<and> length shp < 8 then
        (let p1 = skip_whitespace p in
         if cur p1 = CHR '']'' then (shp, p1)
         else
           (let (v, p2) = parse_int p1;
                p3 = accept CHR '','' (skip_whitespace p2)
            in shape_loop (shp @ [v]) p3))
      else (shp, p))"
  by pat_completeness auto
termination
  by (relation "measure (\<lambda>(shp, p). 8 - length shp)") auto

declare shape_loop.simps [simp del]

text \<open>
  The loop that skips the value of an unknown key, with the \<^verbatim>\<open>int depth\<close> and
  \<^verbatim>\<open>in_string\<close> of the source; it returns the cursor at which the loop stops.
\<close>

fun skip_value :: "32 word \<Rightarrow> bool \<Rightarrow> string \<Rightarrow> string" where
  "skip_value depth in_string [] = []"
| "skip_value depth in_string (c # p) =
     (if c = NUL then c # p
      else if \<not> in_string then
        (if c = DQUOTE then skip_value depth True p
         else if c = CHR ''{'' \<or> c = CHR ''['' then skip_value (depth + 1) False p
         else if c = CHR ''}'' \<or> c = CHR '']'' then
           (if depth = 0 then c # p else skip_value (depth - 1) False p)
         else if c = CHR '','' \<and> depth = 0 then c # p
         else skip_value depth False p)
      else
        (if c = BSLASH \<and> cur p \<noteq> NUL then
           (case p of [] \<Rightarrow> [] | e # p' \<Rightarrow> skip_value depth True p')
         else if c = DQUOTE then skip_value depth False p
         else skip_value depth True p))"

text \<open>The loop that skips the value of \<^verbatim>\<open>__metadata__\<close> in \<^verbatim>\<open>parse_header\<close>.\<close>

fun skip_metadata :: "32 word \<Rightarrow> string \<Rightarrow> string" where
  "skip_metadata depth [] = []"
| "skip_metadata depth (c # p) =
     (if c = NUL then c # p
      else if c = CHR ''{'' then skip_metadata (depth + 1) p
      else if c = CHR ''}'' then (if depth - 1 = 0 then p else skip_metadata (depth - 1) p)
      else skip_metadata depth p)"

text \<open>
  The value of one key of a tensor entry (the \<^verbatim>\<open>if\<close>/\<^verbatim>\<open>else if\<close> chain in the loop of
  \<^verbatim>\<open>parse_tensor_entry\<close>), entered with the cursor behind the colon and the white
  space after it.
\<close>

definition entry_value ::
  "string \<Rightarrow> safetensor_t \<Rightarrow> string \<Rightarrow> error + (safetensor_t \<times> string)" where
  "entry_value key t p =
     (if strcmp key ''dtype'' = 0 then
        (case parse_string p 32 of
           Inl e \<Rightarrow> Inl e
         | Inr (dtype_str, p') \<Rightarrow> Inr (t\<lparr>dtype := parse_dtype dtype_str\<rparr>, p'))
      else if strcmp key ''shape'' = 0 then
        (if cur p \<noteq> CHR ''['' then Inl FormatError
         else
           (let (shp, p') = shape_loop [] (tl p)
            in Inr (t\<lparr>shape := shp\<rparr>, accept CHR '']'' p')))
      else if strcmp key ''data_offsets'' = 0 then
        (if cur p \<noteq> CHR ''['' then Inl FormatError
         else
           (let (start, p1) = parse_int (skip_whitespace (tl p));
                p2 = skip_whitespace (accept CHR '','' (skip_whitespace p1));
                (stop, p3) = parse_int p2;
                p4 = accept CHR '']'' (skip_whitespace p3)
            in Inr (t\<lparr>data_offset := start, data_size := stop - start\<rparr>, p4)))
      else Inr (t, skip_value 0 False p))"

subsection \<open>The cursor only moves forward\<close>

lemma length_skip_whitespace: "length (skip_whitespace p) \<le> length p"
  by (simp add: skip_whitespace_def length_dropWhile_le)

lemma length_accept: "length (accept c p) \<le> length p"
  by (simp add: accept_def)

lemma length_string_body:
  "string_body max_len out p = Inr (s, q) \<Longrightarrow> length q < length p"
  by (induction max_len out p rule: string_body.induct)
     (auto split: if_splits list.splits)

lemma length_parse_string: "parse_string p max_len = Inr (s, q) \<Longrightarrow> length q < length p"
proof -
  assume a: "parse_string p max_len = Inr (s, q)"
  then obtain p' where sk: "skip_whitespace p = DQUOTE # p'"
    and sb: "string_body max_len [] p' = Inr (s, q)"
    by (auto simp: parse_string_def split: list.splits if_splits)
  have "length q < length p'" using sb by (rule length_string_body)
  moreover have "length (DQUOTE # p') \<le> length p"
    using length_skip_whitespace [of p] by (simp add: sk)
  ultimately show ?thesis by simp
qed

lemma length_digits: "length (snd (digits val p)) \<le> length p"
  by (induction val p rule: digits.induct) auto

lemma length_parse_int: "length (snd (parse_int p)) \<le> length p"
proof -
  let ?p1 = "skip_whitespace p"
  let ?p2 = "if cur ?p1 = CHR ''-'' then tl ?p1 else ?p1"
  have e: "snd (parse_int p) = snd (digits 0 ?p2)"
    by (simp add: parse_int_def Let_def split: prod.splits)
  have "length (snd (digits 0 ?p2)) \<le> length ?p2" by (rule length_digits)
  also have "\<dots> \<le> length ?p1" by simp
  also have "\<dots> \<le> length p" by (rule length_skip_whitespace)
  finally show ?thesis by (simp only: e)
qed

lemma length_shape_loop: "length (snd (shape_loop shp p)) \<le> length p"
proof (induction shp p rule: shape_loop.induct)
  case (1 shp p)
  show ?case
  proof (cases "cur p \<noteq> NUL \<and> cur p \<noteq> CHR '']'' \<and> length shp < 8")
    case False
    then show ?thesis by (subst shape_loop.simps) auto
  next
    case True
    let ?p1 = "skip_whitespace p"
    show ?thesis
    proof (cases "cur ?p1 = CHR '']''")
      case True
      with \<open>cur p \<noteq> NUL \<and> cur p \<noteq> CHR '']'' \<and> length shp < 8\<close> show ?thesis
        by (subst shape_loop.simps) (simp add: length_skip_whitespace)
    next
      case False
      obtain v p2 where pi: "parse_int ?p1 = (v, p2)" by (cases "parse_int ?p1")
      let ?p3 = "accept CHR '','' (skip_whitespace p2)"
      have ih: "length (snd (shape_loop (shp @ [v]) ?p3)) \<le> length ?p3"
        using "1.IH" [OF True refl False pi [symmetric] refl refl] .
      have "length ?p3 \<le> length p2"
        using length_accept [of "CHR '',''" "skip_whitespace p2"] length_skip_whitespace [of p2]
        by linarith
      moreover have "length p2 \<le> length ?p1" using length_parse_int [of ?p1] by (simp add: pi)
      moreover have "length ?p1 \<le> length p" by (rule length_skip_whitespace)
      ultimately have "length (snd (shape_loop (shp @ [v]) ?p3)) \<le> length p"
        using ih by linarith
      with True False pi show ?thesis
        by (subst shape_loop.simps) (simp add: Let_def)
    qed
  qed
qed

lemma length_skip_value: "length (skip_value depth in_string p) \<le> length p"
proof (induction depth in_string p rule: skip_value.induct)
  case (1 depth in_string)
  show ?case by simp
next
  case (2 depth in_string c p)
  show ?case
  proof (cases "c = NUL")
    case True
    then show ?thesis by simp
  next
    case nz: False
    show ?thesis
    proof (cases in_string)
      case False
      note ih = "2.IH"(1-4) [OF nz False]
      show ?thesis
        using nz False ih by (auto simp: le_SucI)
    next
      case True
      then have ins: "\<not> \<not> in_string" by simp
      note ih = "2.IH"(5-7) [OF nz ins]
      show ?thesis
      proof (cases "c = BSLASH \<and> cur p \<noteq> NUL")
        case esc: True
        then obtain e p' where p: "p = e # p'" by (cases p) auto
        have "length (skip_value depth True p') \<le> length p'" using ih(1) [OF esc p] .
        then show ?thesis using nz True esc p by simp
      next
        case False
        then show ?thesis using nz True ih(2,3) by (auto simp: le_SucI)
      qed
    qed
  qed
qed

lemma length_skip_metadata: "length (skip_metadata depth p) \<le> length p"
  by (induction depth p rule: skip_metadata.induct) (auto simp: le_Suc_eq)

lemma entry_value_dtype:
  "strcmp key ''dtype'' = 0 \<Longrightarrow> entry_value key t p =
     (case parse_string p 32 of
        Inl e \<Rightarrow> Inl e
      | Inr (dtype_str, p') \<Rightarrow> Inr (t\<lparr>dtype := parse_dtype dtype_str\<rparr>, p'))"
  by (simp add: entry_value_def)

lemma entry_value_shape:
  "strcmp key ''dtype'' \<noteq> 0 \<Longrightarrow> strcmp key ''shape'' = 0 \<Longrightarrow> entry_value key t p =
     (if cur p \<noteq> CHR ''['' then Inl FormatError
      else
        (let (shp, p') = shape_loop [] (tl p)
         in Inr (t\<lparr>shape := shp\<rparr>, accept CHR '']'' p')))"
  by (simp add: entry_value_def)

lemma entry_value_data_offsets:
  "strcmp key ''dtype'' \<noteq> 0 \<Longrightarrow> strcmp key ''shape'' \<noteq> 0 \<Longrightarrow>
   strcmp key ''data_offsets'' = 0 \<Longrightarrow> entry_value key t p =
     (if cur p \<noteq> CHR ''['' then Inl FormatError
      else
        (let (start, p1) = parse_int (skip_whitespace (tl p));
             p2 = skip_whitespace (accept CHR '','' (skip_whitespace p1));
             (stop, p3) = parse_int p2;
             p4 = accept CHR '']'' (skip_whitespace p3)
         in Inr (t\<lparr>data_offset := start, data_size := stop - start\<rparr>, p4)))"
  by (simp add: entry_value_def)

lemma entry_value_unknown:
  "strcmp key ''dtype'' \<noteq> 0 \<Longrightarrow> strcmp key ''shape'' \<noteq> 0 \<Longrightarrow>
   strcmp key ''data_offsets'' \<noteq> 0 \<Longrightarrow> entry_value key t p = Inr (t, skip_value 0 False p)"
  by (simp add: entry_value_def)

lemma length_entry_value:
  assumes "entry_value key t p = Inr (t', q)"
  shows "length q \<le> length p"
proof -
  consider (d) "strcmp key ''dtype'' = 0"
    | (s) "strcmp key ''dtype'' \<noteq> 0" "strcmp key ''shape'' = 0"
    | (o) "strcmp key ''dtype'' \<noteq> 0" "strcmp key ''shape'' \<noteq> 0"
          "strcmp key ''data_offsets'' = 0"
    | (u) "strcmp key ''dtype'' \<noteq> 0" "strcmp key ''shape'' \<noteq> 0"
          "strcmp key ''data_offsets'' \<noteq> 0"
    by blast
  then show ?thesis
  proof cases
    case d
    with assms obtain s where "parse_string p 32 = Inr (s, q)"
      by (auto simp: entry_value_dtype split: sum.splits)
    then show ?thesis using length_parse_string [of p 32 s q] by simp
  next
    case s
    with assms have c: "cur p = CHR ''[''"
      and q: "q = accept CHR '']'' (snd (shape_loop [] (tl p)))"
      by (auto simp: entry_value_shape split: if_splits prod.splits)
    have "length q \<le> length (snd (shape_loop [] (tl p)))"
      unfolding q by (rule length_accept)
    also have "\<dots> \<le> length (tl p)" by (rule length_shape_loop)
    finally show ?thesis by simp
  next
    case o
    let ?p0 = "skip_whitespace (tl p)"
    let ?p1 = "snd (parse_int ?p0)"
    let ?p2 = "skip_whitespace (accept CHR '','' (skip_whitespace ?p1))"
    let ?p3 = "snd (parse_int ?p2)"
    from o assms have q: "q = accept CHR '']'' (skip_whitespace ?p3)"
      by (auto simp: entry_value_data_offsets Let_def split: if_splits prod.splits)
    have "length q \<le> length ?p3"
      unfolding q
      using length_accept [of "CHR '']''" "skip_whitespace ?p3"] length_skip_whitespace [of ?p3]
      by linarith
    also have "\<dots> \<le> length ?p2" by (rule length_parse_int)
    also have "\<dots> \<le> length ?p1"
      using length_skip_whitespace [of "accept CHR '','' (skip_whitespace ?p1)"]
        length_accept [of "CHR '',''" "skip_whitespace ?p1"] length_skip_whitespace [of ?p1]
      by linarith
    also have "\<dots> \<le> length ?p0" by (rule length_parse_int)
    also have "\<dots> \<le> length (tl p)" by (rule length_skip_whitespace)
    finally show ?thesis by simp
  next
    case u
    with assms have "q = skip_value 0 False p" by (simp add: entry_value_unknown)
    then show ?thesis by (simp add: length_skip_value)
  qed
qed

subsection \<open>Tensor entries and the header\<close>

text \<open>
  The \<^verbatim>\<open>while (**p && **p != '}')\<close> loop of \<^verbatim>\<open>parse_tensor_entry\<close>: one key and its
  value per round.
\<close>

function entry_loop :: "safetensor_t \<Rightarrow> string \<Rightarrow> error + (safetensor_t \<times> string)" where
  "entry_loop t p =
     (if cur p \<noteq> NUL \<and> cur p \<noteq> CHR ''}'' then
        (let p0 = skip_whitespace p in
         if cur p0 = CHR ''}'' then Inr (t, p0)
         else
           (case parse_string p0 64 of
              Inl e \<Rightarrow> Inl e
            | Inr (key, p1) \<Rightarrow>
                (let p2 = skip_whitespace p1 in
                 if cur p2 \<noteq> CHR '':'' then Inl FormatError
                 else
                   (case entry_value key t (skip_whitespace (tl p2)) of
                      Inl e \<Rightarrow> Inl e
                    | Inr (t', p3) \<Rightarrow>
                        entry_loop t' (accept CHR '','' (skip_whitespace p3))))))
      else Inr (t, p))"
  by pat_completeness auto
termination
proof (relation "measure (\<lambda>(t, p). length p)")
  show "wf (measure (\<lambda>(t, p). length p))" by simp
next
  fix t p p0 x2 key p1 p2 x2a t' p3
  assume p0: "p0 = skip_whitespace p"
    and ps: "parse_string p0 64 = Inr x2" "(key, p1) = x2"
    and p2: "p2 = skip_whitespace p1"
    and ev: "entry_value key t (skip_whitespace (tl p2)) = Inr x2a" "(t', p3) = x2a"
  have "length (accept CHR '','' (skip_whitespace p3)) \<le> length p3"
    using length_accept [of "CHR '',''" "skip_whitespace p3"] length_skip_whitespace [of p3]
    by linarith
  also have "\<dots> \<le> length (skip_whitespace (tl p2))"
    using ev length_entry_value by metis
  also have "\<dots> \<le> length p1"
    using length_skip_whitespace [of "tl p2"] length_skip_whitespace [of p1] p2 by simp
  also have "\<dots> < length p0" using ps length_parse_string by metis
  also have "\<dots> \<le> length p" unfolding p0 by (rule length_skip_whitespace)
  finally show "((t', accept CHR '','' (skip_whitespace p3)), t, p) \<in> measure (\<lambda>(t, p). length p)"
    by simp
qed

declare entry_loop.simps [simp del]

definition parse_tensor_entry ::
  "string \<Rightarrow> safetensor_t \<Rightarrow> error + (safetensor_t \<times> string)" where
  "parse_tensor_entry p t =
     (let p0 = skip_whitespace p in
      if cur p0 \<noteq> CHR ''{'' then Inl FormatError
      else
        (case entry_loop (t\<lparr>dtype := DTYPE_UNKNOWN, shape := [], data_offset := 0, data_size := 0\<rparr>)
                (tl p0) of
           Inl e \<Rightarrow> Inl e
         | Inr (t', p1) \<Rightarrow> Inr (t', accept CHR ''}'' p1)))"

lemma length_entry_loop: "entry_loop t p = Inr (t', q) \<Longrightarrow> length q \<le> length p"
proof (induction t p rule: entry_loop.induct)
  case (1 t p)
  show ?case
  proof (cases "cur p \<noteq> NUL \<and> cur p \<noteq> CHR ''}''")
    case False
    with "1.prems" show ?thesis by (subst (asm) entry_loop.simps) auto
  next
    case run: True
    let ?p0 = "skip_whitespace p"
    show ?thesis
    proof (cases "cur ?p0 = CHR ''}''")
      case True
      with run "1.prems" have "q = ?p0" by (subst (asm) entry_loop.simps) simp
      then show ?thesis by (simp add: length_skip_whitespace)
    next
      case nb: False
      from run nb "1.prems" obtain key p1 where ps: "parse_string ?p0 64 = Inr (key, p1)"
        by (subst (asm) entry_loop.simps) (auto split: sum.splits)
      let ?p2 = "skip_whitespace p1"
      from run nb ps "1.prems" have col: "\<not> cur ?p2 \<noteq> CHR '':''"
        by (subst (asm) entry_loop.simps) (auto simp: Let_def split: if_splits)
      from run nb ps col "1.prems" obtain t1 p3
        where ev: "entry_value key t (skip_whitespace (tl ?p2)) = Inr (t1, p3)"
          and rec: "entry_loop t1 (accept CHR '','' (skip_whitespace p3)) = Inr (t', q)"
        by (subst (asm) entry_loop.simps) (auto simp: Let_def split: sum.splits)
      have "length q \<le> length (accept CHR '','' (skip_whitespace p3))"
        using "1.IH" [OF run refl nb ps refl refl col ev refl rec] .
      also have "\<dots> \<le> length p3"
        using length_accept [of "CHR '',''" "skip_whitespace p3"] length_skip_whitespace [of p3]
        by linarith
      also have "\<dots> \<le> length (skip_whitespace (tl ?p2))" using ev by (rule length_entry_value)
      also have "\<dots> \<le> length p1"
        using length_skip_whitespace [of "tl ?p2"] length_skip_whitespace [of p1] by simp
      also have "\<dots> \<le> length ?p0" using length_parse_string [OF ps] by simp
      also have "\<dots> \<le> length p" by (rule length_skip_whitespace)
      finally show ?thesis .
    qed
  qed
qed

lemma length_parse_tensor_entry:
  assumes "parse_tensor_entry p t = Inr (t', q)"
  shows "length q \<le> length p"
proof -
  let ?p0 = "skip_whitespace p"
  let ?t0 = "t\<lparr>dtype := DTYPE_UNKNOWN, shape := [], data_offset := 0, data_size := 0\<rparr>"
  from assms obtain p1 where el: "entry_loop ?t0 (tl ?p0) = Inr (t', p1)"
    and q: "q = accept CHR ''}'' p1"
    by (auto simp: parse_tensor_entry_def Let_def split: if_splits sum.splits)
  have "length q \<le> length p1" unfolding q by (rule length_accept)
  also have "\<dots> \<le> length (tl ?p0)" using el by (rule length_entry_loop)
  also have "\<dots> \<le> length p" using length_skip_whitespace [of p] by simp
  finally show ?thesis .
qed

text \<open>
  The constants and array sizes of \<^verbatim>\<open>qwen_asr_safetensors.h\<close>. The header is not among
  the sources, so they are parameters of the model: \<^verbatim>\<open>SAFETENSORS_MAX_TENSORS\<close>,
  \<^verbatim>\<open>SAFETENSORS_MAX_SHARDS\<close> and \<^verbatim>\<open>sizeof(t->name)\<close>.
\<close>

record limits =
  MAX_TENSORS :: nat
  MAX_SHARDS :: nat
  NAME_SIZE :: nat

text \<open>
  The entry \<^verbatim>\<open>parse_header\<close> hands to \<^verbatim>\<open>parse_tensor_entry\<close>: a slot of the zeroed
  \<^verbatim>\<open>calloc\<close> block with the name copied in by \<^verbatim>\<open>strncpy\<close> and cut at
  \<^verbatim>\<open>sizeof(t->name) - 1\<close> bytes.
\<close>

definition new_entry :: "limits \<Rightarrow> string \<Rightarrow> safetensor_t" where
  "new_entry lm tensor_name =
     \<lparr>name = take (NAME_SIZE lm - 1) tensor_name, dtype = DTYPE_F32, shape = [],
      data_offset = 0, data_size = 0\<rparr>"

text \<open>The \<^verbatim>\<open>while\<close> loop of \<^verbatim>\<open>parse_header\<close>; \<open>ts\<close> is the table filled so far.\<close>

function header_loop :: "limits \<Rightarrow> safetensor_t list \<Rightarrow> string \<Rightarrow> error + safetensor_t list" where
  "header_loop lm ts p =
     (if cur p \<noteq> NUL \<and> cur p \<noteq> CHR ''}'' \<and> length ts < MAX_TENSORS lm then
        (let p0 = skip_whitespace p in
         if cur p0 = CHR ''}'' then Inr ts
         else
           (case parse_string p0 256 of
              Inl e \<Rightarrow> Inl e
            | Inr (tensor_name, p1) \<Rightarrow>
                (let p2 = skip_whitespace p1 in
                 if cur p2 \<noteq> CHR '':'' then Inl FormatError
                 else if strcmp tensor_name ''__metadata__'' = 0 then
                   header_loop lm ts
                     (accept CHR '','' (skip_whitespace (skip_metadata 0 (tl p2))))
                 else
                   (case parse_tensor_entry (tl p2) (new_entry lm tensor_name) of
                      Inl e \<Rightarrow> Inl e
                    | Inr (t, p3) \<Rightarrow>
                        header_loop lm (ts @ [t]) (accept CHR '','' (skip_whitespace p3))))))
      else Inr ts)"
  by pat_completeness auto
termination
proof (relation "measure (\<lambda>(lm, ts, p). length p)")
  show "wf (measure (\<lambda>(lm, ts, p). length p))" by simp
next
  fix lm :: limits and ts :: "safetensor_t list" and p p0 x2 tensor_name p1 p2
  assume p0: "p0 = skip_whitespace p"
    and ps: "parse_string p0 256 = Inr x2" "(tensor_name, p1) = x2"
    and p2: "p2 = skip_whitespace p1"
  let ?q = "accept CHR '','' (skip_whitespace (skip_metadata 0 (tl p2)))"
  have "length ?q \<le> length (skip_metadata 0 (tl p2))"
    using length_accept [of "CHR '',''" "skip_whitespace (skip_metadata 0 (tl p2))"]
      length_skip_whitespace [of "skip_metadata 0 (tl p2)"]
    by linarith
  also have "\<dots> \<le> length (tl p2)" by (rule length_skip_metadata)
  also have "\<dots> \<le> length p1" using length_skip_whitespace [of p1] p2 by simp
  also have "\<dots> < length p0" using ps length_parse_string by metis
  also have "\<dots> \<le> length p" unfolding p0 by (rule length_skip_whitespace)
  finally show "((lm, ts, ?q), lm, ts, p) \<in> measure (\<lambda>(lm, ts, p). length p)" by simp
next
  fix lm :: limits and ts :: "safetensor_t list" and p p0 x2 tensor_name p1 p2 x2a t p3
  assume p0: "p0 = skip_whitespace p"
    and ps: "parse_string p0 256 = Inr x2" "(tensor_name, p1) = x2"
    and p2: "p2 = skip_whitespace p1"
    and pe: "parse_tensor_entry (tl p2) (new_entry lm tensor_name) = Inr x2a" "(t, p3) = x2a"
  let ?q = "accept CHR '','' (skip_whitespace p3)"
  have "length ?q \<le> length p3"
    using length_accept [of "CHR '',''" "skip_whitespace p3"] length_skip_whitespace [of p3]
    by linarith
  also have "\<dots> \<le> length (tl p2)" using pe length_parse_tensor_entry by metis
  also have "\<dots> \<le> length p1" using length_skip_whitespace [of p1] p2 by simp
  also have "\<dots> < length p0" using ps length_parse_string by metis
  also have "\<dots> \<le> length p" unfolding p0 by (rule length_skip_whitespace)
  finally show "((lm, ts @ [t], ?q), lm, ts, p) \<in> measure (\<lambda>(lm, ts, p). length p)" by simp
qed

declare header_loop.simps [simp del]

definition parse_header :: "limits \<Rightarrow> string \<Rightarrow> error + safetensor_t list" where
  "parse_header lm header_json =
     (let p = skip_whitespace header_json in
      if cur p \<noteq> CHR ''{'' then Inl FormatError else header_loop lm [] (tl p))"

subsection \<open>Single file operations\<close>

text \<open>
  What the operating system and the allocator hand out, and what must be given back:
  the descriptor of \<^verbatim>\<open>open\<close>, the region of \<^verbatim>\<open>mmap\<close>, and the heap blocks of
  \<^verbatim>\<open>calloc\<close>, \<^verbatim>\<open>strdup\<close> and \<^verbatim>\<open>malloc\<close>. Each is tagged with the path it belongs
  to. The state threaded through the operations is the list of resources that are live.
\<close>

datatype resource =
    FileDescriptor string
  | Mapping string
  | FileStruct string
  | PathString string
  | HeaderBuffer string
  | DirStream string
  | SetStruct

type_synonym resources = "resource list"

definition acquire :: "resource \<Rightarrow> resources \<Rightarrow> resources" where
  "acquire r st = r # st"

definition release :: "resource \<Rightarrow> resources \<Rightarrow> resources" where
  "release r st = remove1 r st"

text \<open>
  The file system the reader sees: the bytes of each readable file, and for each
  directory that \<^verbatim>\<open>opendir\<close> can open the names \<^verbatim>\<open>readdir\<close> yields, in its order.
\<close>

record filesystem =
  files :: "string \<Rightarrow> string option"
  dirs :: "string \<Rightarrow> string list option"

record safetensors_file_t =
  path :: string
  data :: string
  file_size :: nat
  header_size :: nat
  header_json :: string
  tensors :: "safetensor_t list"

definition num_tensors :: "safetensors_file_t \<Rightarrow> nat" where
  "num_tensors sf = length (tensors sf)"

text \<open>
  \<^verbatim>\<open>memcpy(&header_size, data, 8)\<close> on the little-endian hosts the reader is built
  for: the first eight bytes as an unsigned 64-bit number, least significant byte first.
\<close>

definition read_le64 :: "string \<Rightarrow> nat" where
  "read_le64 bytes = foldr (\<lambda>c acc. of_char c + 256 * acc) (take 8 bytes) 0"

definition safetensors_close :: "safetensors_file_t \<Rightarrow> resources \<Rightarrow> resources" where
  "safetensors_close sf st =
     release (FileStruct (path sf))
       (release (HeaderBuffer (path sf))
         (release (PathString (path sf))
           (release (Mapping (path sf)) st)))"

text \<open>
  \<^verbatim>\<open>safetensors_open\<close>, the POSIX build. \<^verbatim>\<open>fstat\<close>, \<^verbatim>\<open>mmap\<close> and the allocator are taken
  to succeed on a file that \<^verbatim>\<open>open\<close> could open.
\<close>

definition safetensors_open ::
  "limits \<Rightarrow> filesystem \<Rightarrow> string \<Rightarrow> resources \<Rightarrow> (error + safetensors_file_t) \<times> resources" where
  "safetensors_open lm fs pth st =
     (case files fs pth of
        None \<Rightarrow> (Inl IOError, st)
      | Some bytes \<Rightarrow>
          (let st1 = acquire (FileDescriptor pth) st;
               fsize = length bytes
           in if fsize < 8 then (Inl IOError, release (FileDescriptor pth) st1)
              else
                (let st2 = release (FileDescriptor pth) (acquire (Mapping pth) st1);
                     hsize = read_le64 bytes
                 in if hsize > fsize - 8 then (Inl BoundsError, release (Mapping pth) st2)
                    else
                      (let st3 = acquire (HeaderBuffer pth)
                                   (acquire (PathString pth) (acquire (FileStruct pth) st2));
                           sf = \<lparr>path = pth, data = bytes, file_size = fsize,
                                 header_size = hsize,
                                 header_json = take hsize (drop 8 bytes), tensors = []\<rparr>
                       in case parse_header lm (header_json sf) of
                            Inl e \<Rightarrow> (Inl e, safetensors_close sf st3)
                          | Inr ts \<Rightarrow> (Inr (sf\<lparr>tensors := ts\<rparr>), st3)))))"

text \<open>\<^verbatim>\<open>safetensors_data\<close>: the offset into the mapping at which a tensor's bytes start.\<close>

definition safetensors_data :: "safetensors_file_t \<Rightarrow> safetensor_t \<Rightarrow> 64 word" where
  "safetensors_data sf t = 8 + of_nat (header_size sf) + data_offset t"

definition safetensor_numel :: "safetensor_t \<Rightarrow> 64 word" where
  "safetensor_numel t = fold (\<lambda>d n. n * d) (shape t) 1"

text \<open>
  \<^verbatim>\<open>bf16_to_f32\<close> up to the \<^verbatim>\<open>memcpy\<close> into the \<^verbatim>\<open>float\<close>: the 32-bit pattern it builds.
\<close>

definition bf16_to_f32 :: "16 word \<Rightarrow> 32 word" where
  "bf16_to_f32 bf16 = push_bit 16 (ucast bf16 :: 32 word)"

text \<open>
  The number an IEEE-754 binary32 pattern denotes, which is how the \<^verbatim>\<open>float\<close> that
  \<^verbatim>\<open>memcpy\<close> fills is read: sign bit 31, biased exponent in bits 23 to 30, fraction in
  bits 0 to 22. Infinities and NaNs denote no number.
\<close>

definition f32_value :: "32 word \<Rightarrow> real option" where
  "f32_value w =
     (let sign = (if bit w 31 then - 1 else 1 :: real);
          e = unat (take_bit 8 (drop_bit 23 w));
          m = unat (take_bit 23 w)
      in if e = 255 then None
         else if e = 0 then Some (sign * real m / 2 ^ 149)
         else if e < 150 then Some (sign * real (2 ^ 23 + m) / 2 ^ (150 - e))
         else Some (sign * real (2 ^ 23 + m) * 2 ^ (e - 150)))"

subsection \<open>Multi-shard operations\<close>

record multi_safetensors_t =
  shards :: "safetensors_file_t list"
  num_shards :: nat

text \<open>\<^verbatim>\<open>strstr(haystack, needle) != NULL\<close>\<close>

fun strstr :: "string \<Rightarrow> string \<Rightarrow> bool" where
  "strstr [] needle = (needle = [])"
| "strstr (c # hay) needle = (take (length needle) (c # hay) = needle \<or> strstr hay needle)"

text \<open>The test of the directory scan: \<^verbatim>\<open>strncmp(name, "model-", 6) == 0 && strstr(...)\<close>.\<close>

definition is_shard_name :: "string \<Rightarrow> bool" where
  "is_shard_name d_name \<longleftrightarrow> take 6 d_name = ''model-'' \<and> strstr d_name ''.safetensors''"

text \<open>
  The \<^verbatim>\<open>readdir\<close> loop: \<open>names\<close> is \<^verbatim>\<open>shard_names[0..n_shards)\<close>; collection stops once
  \<^verbatim>\<open>n_shards\<close> reaches the capacity.
\<close>

fun scan_dir :: "limits \<Rightarrow> string list \<Rightarrow> string list \<Rightarrow> string list" where
  "scan_dir lm names [] = names"
| "scan_dir lm names (d_name # entries) =
     (if length names < MAX_SHARDS lm then
        (if is_shard_name d_name then scan_dir lm (names @ [snprintf 256 d_name]) entries
         else scan_dir lm names entries)
      else names)"

text \<open>
  \<^verbatim>\<open>qsort\<close> of the C library, by its contract: the array in ascending order of the
  comparison function. Elements that compare equal under \<^verbatim>\<open>strcmp\<close> are the same
  string, so the order the library leaves them in is immaterial.
\<close>

fun qsort_insert :: "('a \<Rightarrow> 'a \<Rightarrow> int) \<Rightarrow> 'a \<Rightarrow> 'a list \<Rightarrow> 'a list" where
  "qsort_insert cmp x [] = [x]"
| "qsort_insert cmp x (y # ys) =
     (if cmp x y \<le> 0 then x # y # ys else y # qsort_insert cmp x ys)"

definition qsort :: "('a \<Rightarrow> 'a \<Rightarrow> int) \<Rightarrow> 'a list \<Rightarrow> 'a list" where
  "qsort cmp xs = foldr (qsort_insert cmp) xs []"

definition multi_safetensors_close :: "multi_safetensors_t \<Rightarrow> resources \<Rightarrow> resources" where
  "multi_safetensors_close ms st =
     release SetStruct (fold safetensors_close (take (num_shards ms) (shards ms)) st)"

text \<open>
  The loop that opens the sorted shards. \<open>ms\<close> is the set under construction: the shards
  opened so far are stored in it, and its \<^verbatim>\<open>num_shards\<close> is still what \<^verbatim>\<open>calloc\<close> left.
\<close>

fun open_shards ::
  "limits \<Rightarrow> filesystem \<Rightarrow> string \<Rightarrow> multi_safetensors_t \<Rightarrow> string list \<Rightarrow> resources \<Rightarrow>
   (error + multi_safetensors_t) \<times> resources" where
  "open_shards lm fs model_dir ms [] st = (Inr ms, st)"
| "open_shards lm fs model_dir ms (shard_name # rest) st =
     (case safetensors_open lm fs (snprintf 4096 (model_dir @ ''/'' @ shard_name)) st of
        (Inl e, st') \<Rightarrow> (Inl e, multi_safetensors_close ms st')
      | (Inr sf, st') \<Rightarrow>
          open_shards lm fs model_dir (ms\<lparr>shards := shards ms @ [sf]\<rparr>) rest st')"

definition multi_safetensors_open ::
  "limits \<Rightarrow> filesystem \<Rightarrow> string \<Rightarrow> resources \<Rightarrow> (error + multi_safetensors_t) \<times> resources" where
  "multi_safetensors_open lm fs model_dir st =
     (let st1 = acquire SetStruct st in
      case safetensors_open lm fs (snprintf 4096 (model_dir @ ''/model.safetensors'')) st1 of
        (Inr sf, st2) \<Rightarrow> (Inr \<lparr>shards = [sf], num_shards = 1\<rparr>, st2)
      | (Inl e, st2) \<Rightarrow>
          (case dirs fs model_dir of
             None \<Rightarrow> (Inl IOError, release SetStruct st2)
           | Some entries \<Rightarrow>
               (let shard_names = scan_dir lm [] entries;
                    st3 = release (DirStream model_dir) (acquire (DirStream model_dir) st2)
                in if length shard_names = 0 then (Inl NotFoundError, release SetStruct st3)
                   else
                     (case open_shards lm fs model_dir \<lparr>shards = [], num_shards = 0\<rparr>
                             (qsort strcmp shard_names) st3 of
                        (Inl e', st4) \<Rightarrow> (Inl e', st4)
                      | (Inr ms, st4) \<Rightarrow>
                          (Inr (ms\<lparr>num_shards := length shard_names\<rparr>), st4)))))"

text \<open>
  \<^verbatim>\<open>multi_safetensors_find\<close>: the inner loop over one shard's table, then the outer loop
  over \<^verbatim>\<open>shards[0..num_shards)\<close>. The result is the descriptor found and the shard
  stored through \<^verbatim>\<open>out_sf\<close>.
\<close>

fun find_in_table :: "safetensor_t list \<Rightarrow> string \<Rightarrow> safetensor_t option" where
  "find_in_table [] nm = None"
| "find_in_table (t # ts) nm = (if strcmp (name t) nm = 0 then Some t else find_in_table ts nm)"

fun find_in_shards ::
  "safetensors_file_t list \<Rightarrow> string \<Rightarrow> (safetensor_t \<times> safetensors_file_t) option" where
  "find_in_shards [] nm = None"
| "find_in_shards (sf # sfs) nm =
     (case find_in_table (tensors sf) nm of
        Some t \<Rightarrow> Some (t, sf)
      | None \<Rightarrow> find_in_shards sfs nm)"

definition multi_safetensors_find ::
  "multi_safetensors_t \<Rightarrow> string \<Rightarrow> (safetensor_t \<times> safetensors_file_t) option" where
  "multi_safetensors_find ms nm = find_in_shards (take (num_shards ms) (shards ms)) nm"

subsection \<open>Notions used in the properties\<close>

text \<open>The failures the header parser can report.\<close>

definition parse_error :: "error \<Rightarrow> bool" where
  "parse_error e \<longleftrightarrow> e = FormatError \<or> e = ReadPastEnd"

text \<open>
  The inputs the properties below quantify over. \<open>dec n\<close> is the decimal numeral of
  \<open>n\<close> and \<open>num i\<close> the numeral of the integer \<open>i\<close>, with its sign; a \<open>blank\<close> string
  consists of the four white space characters the parser skips; a \<open>plain\<close> string has no
  quote, backslash or NUL in it, so its JSON literal is the string between two quotes.
\<close>

fun dec :: "nat \<Rightarrow> string" where
  "dec n = (if n < 10 then [char_of (48 + n)] else dec (n div 10) @ [char_of (48 + n mod 10)])"

declare dec.simps [simp del]

definition num :: "int \<Rightarrow> string" where
  "num i = (if i < 0 then CHR ''-'' # dec (nat (- i)) else dec (nat i))"

definition blank :: "string \<Rightarrow> bool" where
  "blank w = list_all is_space w"

definition plain :: "string \<Rightarrow> bool" where
  "plain k = list_all (\<lambda>c. c \<noteq> DQUOTE \<and> c \<noteq> BSLASH \<and> c \<noteq> NUL) k"

text \<open>
  Example inputs: the limits used in the examples, and a file system holding one file
  \<open>m\<close> whose header declares the data range \<open>[0, 100]\<close> in front of a data block of
  fifty bytes, one file \<open>n\<close> with the range \<open>[7, 9]\<close> in front of two bytes, a file
  of three bytes, and a file whose length prefix declares sixteen header bytes where two
  follow.
\<close>

definition example_limits :: limits where
  "example_limits = \<lparr>MAX_TENSORS = 4, MAX_SHARDS = 2, NAME_SIZE = 256\<rparr>"

definition example_files :: "string \<Rightarrow> string option" where
  \<open>example_files =
     [''m'' \<mapsto> [CHR 0x1E, NUL, NUL, NUL, NUL, NUL, NUL, NUL]
                @ ''{"a":{"data_offsets":[0,100]}}'' @ replicate 50 NUL,
      ''n'' \<mapsto> [CHR 0x1C, NUL, NUL, NUL, NUL, NUL, NUL, NUL]
                @ ''{"b":{"data_offsets":[7,9]}}'' @ replicate 2 NUL,
      ''short'' \<mapsto> ''abc'',
      ''overlong'' \<mapsto> [CHR 0x10, NUL, NUL, NUL, NUL, NUL, NUL, NUL] @ ''{}'']\<close>

definition example_fs :: filesystem where
  "example_fs = \<lparr>files = example_files, dirs = Map.empty\<rparr>"

text \<open>
  A second file system with four model directories: \<open>one\<close> holds \<^verbatim>\<open>model.safetensors\<close>
  next to a shard file; \<open>two\<close> holds two shards, listed in reverse order, which both
  declare a tensor \<open>a\<close>; \<open>bad\<close> holds a readable first shard and a second shard of three
  bytes; \<open>none\<close> holds no shard file.
\<close>

definition example_model_files :: "string \<Rightarrow> string option" where
  \<open>example_model_files =
     [''one/model.safetensors'' \<mapsto> [CHR 0x02, NUL, NUL, NUL, NUL, NUL, NUL, NUL] @ ''{}'',
      ''one/model-1.safetensors'' \<mapsto> [CHR 0x02, NUL, NUL, NUL, NUL, NUL, NUL, NUL] @ ''{}'',
      ''two/model-1.safetensors'' \<mapsto>
         [CHR 0x08, NUL, NUL, NUL, NUL, NUL, NUL, NUL] @ ''{"a":{}}'',
      ''two/model-2.safetensors'' \<mapsto>
         [CHR 0x0F, NUL, NUL, NUL, NUL, NUL, NUL, NUL] @ ''{"a":{},"b":{}}'',
      ''bad/model-1.safetensors'' \<mapsto> [CHR 0x02, NUL, NUL, NUL, NUL, NUL, NUL, NUL] @ ''{}'',
      ''bad/model-2.safetensors'' \<mapsto> ''abc'']\<close>

definition example_model_dirs :: "string \<Rightarrow> string list option" where
  "example_model_dirs =
     [''one'' \<mapsto> [''.'', ''..'', ''model-1.safetensors'', ''model.safetensors''],
      ''two'' \<mapsto> [''model-2.safetensors'', ''.'', ''model-1.safetensors'', ''..''],
      ''bad'' \<mapsto> [''model-2.safetensors'', ''model-1.safetensors''],
      ''none'' \<mapsto> [''.'', ''..'', ''config.json'']]"

definition example_model_fs :: filesystem where
  "example_model_fs = \<lparr>files = example_model_files, dirs = example_model_dirs\<rparr>"

text \<open>The set that discovery builds for the directory \<open>two\<close>.\<close>

definition example_set :: multi_safetensors_t where
  \<open>example_set =
     \<lparr>shards =
        [\<lparr>path = ''two/model-1.safetensors'',
          data = [CHR 0x08, NUL, NUL, NUL, NUL, NUL, NUL, NUL] @ ''{"a":{}}'',
          file_size = 16, header_size = 8, header_json = ''{"a":{}}'',
          tensors = [\<lparr>name = ''a'', dtype = DTYPE_UNKNOWN, shape = [],
                      data_offset = 0, data_size = 0\<rparr>]\<rparr>,
         \<lparr>path = ''two/model-2.safetensors'',
          data = [CHR 0x0F, NUL, NUL, NUL, NUL, NUL, NUL, NUL] @ ''{"a":{},"b":{}}'',
          file_size = 23, header_size = 15, header_json = ''{"a":{},"b":{}}'',
          tensors = [\<lparr>name = ''a'', dtype = DTYPE_UNKNOWN, shape = [],
                      data_offset = 0, data_size = 0\<rparr>,
                     \<lparr>name = ''b'', dtype = DTYPE_UNKNOWN, shape = [],
                      data_offset = 0, data_size = 0\<rparr>]\<rparr>],
      num_shards = 2\<rparr>\<close>












section \<open>Properties\<close>

subsection \<open>BF16 widening\<close>

lemma bf16_low_half: "take_bit 16 (bf16_to_f32 b) = 0"
  by (simp add: bf16_to_f32_def take_bit_push_bit)

lemma bf16_high_half: "ucast (drop_bit 16 (bf16_to_f32 b)) = b"
  unfolding bf16_to_f32_def
  by (rule bit_word_eqI) (auto simp: bit_simps)

lemma unat_bf16_to_f32: "unat (bf16_to_f32 b) = unat b * 2 ^ 16"
proof -
  have lt: "unat b < 65536" using unsigned_less [of b, where ?'a = nat] by simp
  have uc: "unat (ucast b :: 32 word) = unat b"
    using lt by (simp add: unsigned_ucast_eq take_bit_nat_eq_self)
  have "unat (bf16_to_f32 b) = (unat b * 65536) mod 2 ^ 32"
    unfolding bf16_to_f32_def by (simp add: push_bit_eq_mult unat_word_ariths uc)
  also have "\<dots> = unat b * 65536" using lt by simp
  finally show ?thesis by simp
qed

lemma bf16_one: "f32_value (bf16_to_f32 0x3F80) = Some 1"
  by (simp add: bf16_to_f32_def f32_value_def Let_def)

lemma bf16_zero: "f32_value (bf16_to_f32 0x0000) = Some 0"
  by (simp add: bf16_to_f32_def f32_value_def Let_def)

text \<open>
  Claim C9. For every 16-bit value \<open>b\<close>, \<^verbatim>\<open>bf16_to_f32\<close> builds the 32-bit word that is
  \<open>b\<close> shifted left by sixteen: its low half is zero, its high half is \<open>b\<close> again (so
  nothing is lost), and as a number it is \<open>b * 2^16\<close>. Read as an IEEE-754 single, the
  widening of \<open>0x3F80\<close> is exactly \<open>1.0\<close> and the widening of \<open>0x0000\<close> is exactly \<open>0.0\<close>.
\<close>

theorem bf16_to_f32_exact:
  "bf16_to_f32 b = push_bit 16 (ucast b)
   \<and> take_bit 16 (bf16_to_f32 b) = 0
   \<and> ucast (drop_bit 16 (bf16_to_f32 b)) = b
   \<and> unat (bf16_to_f32 b) = unat b * 2 ^ 16
   \<and> f32_value (bf16_to_f32 0x3F80) = Some 1
   \<and> f32_value (bf16_to_f32 0x0000) = Some 0"
  using bf16_low_half [of b] bf16_high_half [of b] unat_bf16_to_f32 [of b] bf16_one bf16_zero
  by (simp add: bf16_to_f32_def)

subsection \<open>Reading numerals, keys and single entries\<close>

lemma is_digit_char_of: "d < 10 \<Longrightarrow> is_digit (char_of (48 + d :: nat))"
  by (simp add: is_digit_def)

lemma digit_value:
  assumes "d < 10"
  shows "(of_char (char_of (48 + d :: nat)) :: 64 word) - 0x30 = of_nat d"
proof -
  have "(of_char (char_of (48 + d)) :: nat) = 48 + d" using assms by simp
  then have "(of_nat (of_char (char_of (48 + d)) :: nat) :: 64 word) = of_nat (48 + d)" by simp
  then have "(of_char (char_of (48 + d)) :: 64 word) = 48 + of_nat d"
    by (simp only: of_nat_of_char of_nat_add of_nat_numeral)
  then show ?thesis by simp
qed

lemma dec_digits: "c \<in> set (dec n) \<Longrightarrow> is_digit c"
  by (induction n arbitrary: c rule: dec.induct) (subst (asm) dec.simps, auto simp: is_digit_char_of split: if_splits)

lemma dec_nonempty: "dec n \<noteq> []"
  by (subst dec.simps) simp

lemma digits_dec_append:
  "digits v (dec n @ rest) = digits (v * 10 ^ length (dec n) + of_nat n) rest"
proof (induction n arbitrary: v rest rule: dec.induct)
  case (1 n)
  show ?case
  proof (cases "n < 10")
    case True
    then have d: "dec n = [char_of (48 + n)]" by (subst dec.simps) simp
    show ?thesis using True by (simp add: d is_digit_char_of digit_value)
  next
    case False
    let ?c = "char_of (48 + n mod 10) :: char"
    let ?w = "v * 10 ^ length (dec (n div 10)) + of_nat (n div 10)"
    have d: "dec n = dec (n div 10) @ [?c]" using False by (subst dec.simps) simp
    have "digits v (dec n @ rest) = digits v (dec (n div 10) @ (?c # rest))" by (simp add: d)
    also have "\<dots> = digits ?w (?c # rest)"
      using "1.IH" [OF False] .
    also have "\<dots> = digits (?w * 10 + of_nat (n mod 10)) rest"
      by (simp add: is_digit_char_of digit_value)
    also have "?w * 10 + of_nat (n mod 10) = v * 10 ^ length (dec n) + (of_nat n :: 64 word)"
    proof -
      have "(of_nat (n div 10 * 10 + n mod 10) :: 64 word)
            = of_nat (n div 10) * 10 + of_nat (n mod 10)"
        by (simp only: of_nat_add of_nat_mult of_nat_numeral)
      then have "(of_nat n :: 64 word) = of_nat (n div 10) * 10 + of_nat (n mod 10)"
        by (simp only: div_mult_mod_eq)
      then show ?thesis by (simp add: d algebra_simps)
    qed
    finally show ?thesis .
  qed
qed

lemma digits_stop: "\<not> is_digit (cur rest) \<Longrightarrow> digits w rest = (w, rest)"
  by (cases rest) auto

lemma parse_int_dec:
  assumes "\<not> is_digit (cur rest)"
  shows "parse_int (dec n @ rest) = (of_nat n, rest)"
proof -
  obtain c cs where d: "dec n = c # cs" using dec_nonempty [of n] by (cases "dec n") auto
  have dg: "is_digit c" using dec_digits [of c n] d by simp
  then have ns: "\<not> is_space c" and nm: "c \<noteq> CHR ''-''"
    by (auto simp: is_digit_def is_space_def)
  have sk: "skip_whitespace (dec n @ rest) = dec n @ rest"
    using ns by (simp add: skip_whitespace_def d)
  have cu: "cur (dec n @ rest) = c" by (simp add: d)
  have "digits 0 (dec n @ rest) = (of_nat n, rest)"
    by (simp add: digits_dec_append digits_stop [OF assms])
  then show ?thesis
    using nm by (simp add: parse_int_def sk cu)
qed

lemma skip_whitespace_dec: "skip_whitespace (dec n @ rest) = dec n @ rest"
proof -
  obtain c cs where d: "dec n = c # cs" using dec_nonempty [of n] by (cases "dec n") auto
  have "is_digit c" using dec_digits [of c n] d by simp
  then have "\<not> is_space c" by (auto simp: is_digit_def is_space_def)
  then show ?thesis by (simp add: skip_whitespace_def d)
qed

lemma skip_whitespace_Nil: "skip_whitespace [] = []"
  by (simp add: skip_whitespace_def)

lemma skip_whitespace_Cons:
  "skip_whitespace (c # p) = (if is_space c then skip_whitespace p else c # p)"
  by (simp add: skip_whitespace_def)

lemmas ws_simps = skip_whitespace_Nil skip_whitespace_Cons is_space_def accept_def

lemma entry_loop_stop: "entry_loop t (CHR ''}'' # rest) = Inr (t, CHR ''}'' # rest)"
  by (subst entry_loop.simps) simp

lemma cstr_plain: "plain k \<Longrightarrow> cstr k = k"
  by (induction k) (auto simp: plain_def cstr_def)

lemma string_body_plain:
  "plain k \<Longrightarrow> plain out \<Longrightarrow> length out + length k < max_len \<Longrightarrow>
   string_body max_len out (k @ DQUOTE # rest) = Inr (out @ k, rest)"
proof (induction k arbitrary: out)
  case Nil
  then show ?case by (simp add: cstr_plain)
next
  case (Cons c k)
  have c: "c \<noteq> DQUOTE" "c \<noteq> BSLASH" "c \<noteq> NUL" and k: "plain k"
    using Cons.prems(1) by (auto simp: plain_def)
  have po: "plain (out @ [c])" using Cons.prems(2) c by (simp add: plain_def)
  have lt: "length out < max_len - 1" using Cons.prems(3) by simp
  have "string_body max_len out ((c # k) @ DQUOTE # rest)
        = string_body max_len (out @ [c]) (k @ DQUOTE # rest)"
    using c lt by simp
  also have "\<dots> = Inr ((out @ [c]) @ k, rest)"
    using Cons.IH [OF k po] Cons.prems(3) by simp
  finally show ?case by simp
qed

lemma parse_string_plain:
  "plain k \<Longrightarrow> length k < max_len \<Longrightarrow>
   parse_string (DQUOTE # k @ DQUOTE # rest) max_len = Inr (k, rest)"
  using string_body_plain [of k "[]" max_len rest]
  by (simp add: parse_string_def ws_simps plain_def)

lemma entry_loop_step:
  assumes "plain k" "length k < 64"
  shows "entry_loop t (DQUOTE # k @ DQUOTE # CHR '':'' # v) =
     (case entry_value k t (skip_whitespace v) of
        Inl e \<Rightarrow> Inl e
      | Inr (t', p3) \<Rightarrow> entry_loop t' (accept CHR '','' (skip_whitespace p3)))"
  by (subst entry_loop.simps)
     (simp add: parse_string_plain [OF assms] skip_whitespace_Cons is_space_def Let_def)

lemma skip_whitespace_blank: "blank w \<Longrightarrow> skip_whitespace (w @ p) = skip_whitespace p"
  by (induction w) (auto simp: blank_def skip_whitespace_Cons)

lemma skip_whitespace_keep: "\<not> is_space c \<Longrightarrow> skip_whitespace (c # p) = c # p"
  by (simp add: skip_whitespace_Cons)

lemma cur_blank:
  assumes "blank w" "\<not> is_space c"
  shows "cur (w @ c # p) = c \<or> is_space (cur (w @ c # p))"
  using assms by (cases w) (auto simp: blank_def)

lemma parse_int_blank: "blank w \<Longrightarrow> parse_int (w @ p) = parse_int p"
  by (simp add: parse_int_def skip_whitespace_blank)

lemma parse_int_num:
  assumes "\<not> is_digit (cur rest)"
  shows "parse_int (num i @ rest) = (word_of_int i, rest)"
proof (cases "i < 0")
  case False
  then have "(of_nat (nat i) :: 64 word) = word_of_int i" by simp
  with False show ?thesis using parse_int_dec [OF assms, of "nat i"] by (simp add: num_def)
next
  case True
  let ?n = "nat (- i)"
  have d: "digits 0 (dec ?n @ rest) = (of_nat ?n, rest)"
    by (simp add: digits_dec_append digits_stop [OF assms])
  have w: "- (of_nat ?n :: 64 word) = word_of_int i" using True by simp
  show ?thesis
    using True d w
    by (simp add: num_def parse_int_def skip_whitespace_Cons is_space_def)
qed

lemma skip_whitespace_num: "skip_whitespace (num i @ rest) = num i @ rest"
  by (simp add: num_def skip_whitespace_dec skip_whitespace_Cons is_space_def)

lemma not_digit_blank_then:
  assumes "blank w" "\<not> is_digit c"
  shows "\<not> is_digit (cur (w @ c # p))"
  using assms by (cases w) (auto simp: blank_def is_digit_def is_space_def)

lemma entry_value_data_offsets_pair:
  assumes "blank w3" "blank w4" "blank w5" "blank w6"
  shows "entry_value ''data_offsets'' t
           (CHR ''['' # w3 @ num s @ w4 @ CHR '','' # w5 @ num e @ w6 @ CHR '']'' # rest)
         = Inr (t\<lparr>data_offset := word_of_int s, data_size := word_of_int e - word_of_int s\<rparr>, rest)"
proof -
  let ?r2 = "w6 @ CHR '']'' # rest"
  let ?r1 = "w4 @ CHR '','' # w5 @ num e @ ?r2"
  have 1: "parse_int (skip_whitespace (w3 @ num s @ ?r1)) = (word_of_int s, ?r1)"
    using parse_int_num [of ?r1 s] not_digit_blank_then [OF assms(2), of "CHR '',''"]
    by (simp add: skip_whitespace_blank [OF assms(1)] skip_whitespace_num is_digit_def)
  have 2: "skip_whitespace (accept CHR '','' (skip_whitespace ?r1)) = num e @ ?r2"
    by (simp add: skip_whitespace_blank [OF assms(2)] skip_whitespace_blank [OF assms(3)]
        skip_whitespace_Cons is_space_def accept_def skip_whitespace_num)
  have 3: "parse_int (num e @ ?r2) = (word_of_int e, ?r2)"
    using parse_int_num [of ?r2 e] not_digit_blank_then [OF assms(4), of "CHR '']''"]
    by (simp add: is_digit_def)
  have 4: "accept CHR '']'' (skip_whitespace ?r2) = rest"
    by (simp add: skip_whitespace_blank [OF assms(4)] skip_whitespace_Cons is_space_def accept_def)
  have k: "strcmp ''data_offsets'' ''dtype'' \<noteq> 0" "strcmp ''data_offsets'' ''shape'' \<noteq> 0"
    "strcmp ''data_offsets'' ''data_offsets'' = 0" by simp_all
  show ?thesis
    unfolding entry_value_data_offsets [OF k]
    by (simp add: 1 2 3 4 Let_def del: append_assoc)
qed

lemma cur_blank_quote:
  assumes "blank w"
  shows "cur (w @ DQUOTE # p) \<noteq> NUL \<and> cur (w @ DQUOTE # p) \<noteq> CHR ''}''"
  using assms by (cases w) (auto simp: blank_def is_space_def)

lemma entry_loop_step_blank:
  assumes "plain k" "length k < 64" "blank w0" "blank w1"
  shows "entry_loop t (w0 @ DQUOTE # k @ DQUOTE # w1 @ CHR '':'' # v) =
     (case entry_value k t (skip_whitespace v) of
        Inl e \<Rightarrow> Inl e
      | Inr (t', p3) \<Rightarrow> entry_loop t' (accept CHR '','' (skip_whitespace p3)))"
proof -
  let ?p = "w0 @ DQUOTE # k @ DQUOTE # w1 @ CHR '':'' # v"
  have c: "cur ?p \<noteq> NUL \<and> cur ?p \<noteq> CHR ''}''" using assms(3) by (rule cur_blank_quote)
  have p0: "skip_whitespace ?p = DQUOTE # k @ DQUOTE # w1 @ CHR '':'' # v"
    by (simp add: skip_whitespace_blank [OF assms(3)] skip_whitespace_Cons is_space_def)
  have ps: "parse_string (DQUOTE # k @ DQUOTE # w1 @ CHR '':'' # v) 64
            = Inr (k, w1 @ CHR '':'' # v)"
    using assms(1,2) by (rule parse_string_plain)
  have p2: "skip_whitespace (w1 @ CHR '':'' # v) = CHR '':'' # v"
    by (simp add: skip_whitespace_blank [OF assms(4)] skip_whitespace_Cons is_space_def)
  show ?thesis
    by (subst entry_loop.simps) (simp add: c p0 ps p2 Let_def del: append_assoc)
qed

lemma entry_loop_data_offsets:
  assumes "blank w0" "blank w1" "blank w2" "blank w3" "blank w4" "blank w5" "blank w6"
  shows "entry_loop t
           (w0 @ DQUOTE # ''data_offsets'' @ DQUOTE # w1 @ CHR '':'' # w2 @ CHR ''['' # w3
              @ num s @ w4 @ CHR '','' # w5 @ num e @ w6 @ CHR '']'' # rest)
         = entry_loop (t\<lparr>data_offset := word_of_int s, data_size := word_of_int e - word_of_int s\<rparr>)
             (accept CHR '','' (skip_whitespace rest))"
proof -
  let ?val = "CHR ''['' # w3 @ num s @ w4 @ CHR '','' # w5 @ num e @ w6 @ CHR '']'' # rest"
  have pl: "plain ''data_offsets''" "length ''data_offsets'' < 64" by (simp_all add: plain_def)
  have sk: "skip_whitespace (w2 @ ?val) = ?val"
    by (simp add: skip_whitespace_blank [OF assms(3)] skip_whitespace_Cons is_space_def)
  have ev: "entry_value ''data_offsets'' t ?val
     = Inr (t\<lparr>data_offset := word_of_int s, data_size := word_of_int e - word_of_int s\<rparr>, rest)"
    using assms(4-7) by (rule entry_value_data_offsets_pair)
  show ?thesis
    using entry_loop_step_blank [OF pl assms(1,2), of t "w2 @ ?val"]
    by (simp only: sk ev sum.case prod.case)
qed

lemma unat_word_of_int_diff:
  "unat (word_of_int e - word_of_int s :: 64 word) = nat ((e - s) mod 2 ^ 64)"
proof -
  have "(word_of_int e - word_of_int s :: 64 word) = word_of_int (e - s)" by simp
  then show ?thesis by (simp only: unat_eq_nat_uint uint_word_of_int) simp
qed

lemma unat_word_of_int_wrap:
  assumes "e < s" "s - e \<le> 2 ^ 64"
  shows "unat (word_of_int e - word_of_int s :: 64 word) = 2 ^ 64 - nat (s - e)"
proof -
  have "(e - s) mod 2 ^ 64 = (e - s + 2 ^ 64) mod 2 ^ 64" by simp
  also have "\<dots> = e - s + 2 ^ 64"
  proof (cases "s - e = 2 ^ 64")
    case True
    then have "e - s + 2 ^ 64 = 0" by simp
    then show ?thesis by simp
  next
    case False
    with assms show ?thesis by (intro mod_pos_pos_trivial) auto
  qed
  finally have "nat ((e - s) mod 2 ^ 64) = nat (e - s + 2 ^ 64)" by simp
  also have "\<dots> = 2 ^ 64 - nat (s - e)" using assms by (simp add: nat_diff_distrib')
  finally show ?thesis by (simp only: unat_word_of_int_diff)
qed

lemmas eval_simps = parse_header_def header_loop.simps parse_tensor_entry_def entry_loop.simps
  entry_value_def parse_string_def parse_int_def ws_simps cstr_def new_entry_def Let_def
  shape_loop.simps is_digit_def parse_dtype_def

lemma parse_dtype_then_offsets:
  \<open>parse_tensor_entry ''{"dtype":"F32","data_offsets":[8,0]}''
     \<lparr>name = ''w'', dtype = DTYPE_F32, shape = [], data_offset = 0, data_size = 0\<rparr>
   = Inr (\<lparr>name = ''w'', dtype = DTYPE_F32, shape = [], data_offset = 8,
           data_size = 18446744073709551608\<rparr>, [])\<close>
  by (simp add: eval_simps)

text \<open>
  Claim C10. Wherever the key \<^verbatim>\<open>data_offsets\<close> stands in a tensor entry, that is for
  every descriptor state \<open>t\<close> the keys before it have produced, for every pair of numerals
  \<open>[s, e]\<close> within the range of \<^verbatim>\<open>int64_t\<close>, signed or not, and for any white space around
  the tokens, the parser stores \<^verbatim>\<open>data_offset = (size_t) s\<close> and
  \<^verbatim>\<open>data_size = (size_t) e - (size_t) s\<close> and goes on with the rest of the entry: the value
  is read without an error and nothing compares \<open>e\<close> with \<open>s\<close>. The subtraction is that of
  \<^verbatim>\<open>size_t\<close>, modulo \<open>2^64\<close>; when \<open>e < s\<close> the size wraps around to \<open>2^64 - (s - e)\<close>.
\<close>

theorem data_size_unsigned_subtraction:
  assumes "blank w0" "blank w1" "blank w2" "blank w3" "blank w4" "blank w5" "blank w6"
    and "- (2 ^ 63) < s" "s < 2 ^ 63" "- (2 ^ 63) < e" "e < 2 ^ 63"
  shows
    "entry_loop t
       (w0 @ DQUOTE # ''data_offsets'' @ DQUOTE # w1 @ CHR '':'' # w2 @ CHR ''['' # w3
          @ num s @ w4 @ CHR '','' # w5 @ num e @ w6 @ CHR '']'' # rest)
     = entry_loop
         (t\<lparr>data_offset := word_of_int s, data_size := word_of_int e - word_of_int s\<rparr>)
         (accept CHR '','' (skip_whitespace rest))
     \<and> entry_value ''data_offsets'' t
           (CHR ''['' # w3 @ num s @ w4 @ CHR '','' # w5 @ num e @ w6 @ CHR '']'' # rest)
         = Inr (t\<lparr>data_offset := word_of_int s,
                   data_size := word_of_int e - word_of_int s\<rparr>, rest)
     \<and> unat (word_of_int e - word_of_int s :: 64 word) = nat ((e - s) mod 2 ^ 64)
     \<and> (e < s \<longrightarrow> unat (word_of_int e - word_of_int s :: 64 word) = 2 ^ 64 - nat (s - e))"
proof (intro conjI impI)
  show "entry_loop t
       (w0 @ DQUOTE # ''data_offsets'' @ DQUOTE # w1 @ CHR '':'' # w2 @ CHR ''['' # w3
          @ num s @ w4 @ CHR '','' # w5 @ num e @ w6 @ CHR '']'' # rest)
     = entry_loop
         (t\<lparr>data_offset := word_of_int s, data_size := word_of_int e - word_of_int s\<rparr>)
         (accept CHR '','' (skip_whitespace rest))"
    using assms(1-7) by (rule entry_loop_data_offsets)
  show "entry_value ''data_offsets'' t
           (CHR ''['' # w3 @ num s @ w4 @ CHR '','' # w5 @ num e @ w6 @ CHR '']'' # rest)
         = Inr (t\<lparr>data_offset := word_of_int s,
                   data_size := word_of_int e - word_of_int s\<rparr>, rest)"
    using assms(4-7) by (rule entry_value_data_offsets_pair)
  show "unat (word_of_int e - word_of_int s :: 64 word) = nat ((e - s) mod 2 ^ 64)"
    by (rule unat_word_of_int_diff)
next
  assume "e < s"
  moreover have "s - e \<le> 2 ^ 64" using assms(8-11) by simp
  ultimately show "unat (word_of_int e - word_of_int s :: 64 word) = 2 ^ 64 - nat (s - e)"
    by (rule unat_word_of_int_wrap)
qed

theorem data_size_unsigned_subtraction_witness:
  \<open>entry_loop \<lparr>name = ''w'', dtype = DTYPE_F32, shape = [2], data_offset = 0, data_size = 0\<rparr>
       ''"data_offsets" : [ 8 , 0 ]}''
     = Inr (\<lparr>name = ''w'', dtype = DTYPE_F32, shape = [2], data_offset = 8,
             data_size = 18446744073709551608\<rparr>, ''}'')
   \<and> unat (word_of_int 0 - word_of_int 8 :: 64 word) = 18446744073709551608\<close>
proof -
  let ?t = "\<lparr>name = ''w'', dtype = DTYPE_F32, shape = [2], data_offset = 0, data_size = 0\<rparr>"
  have b: "blank []" "blank '' ''" by (simp_all add: blank_def is_space_def)
  have n: "num 8 = ''8''" "num 0 = ''0''" by code_simp+
  have r: "(8 :: int) < 2 ^ 63" "- (2 ^ 63) < (8 :: int)" "(0 :: int) < 2 ^ 63"
    "- (2 ^ 63) < (0 :: int)" by simp_all
  note th = data_size_unsigned_subtraction
    [OF b(1) b(2) b(2) b(2) b(2) b(2) b(2) r(2) r(1) r(4) r(3), of ?t "''}''"]
  have 1: \<open>entry_loop ?t ''"data_offsets" : [ 8 , 0 ]}''
     = entry_loop (?t\<lparr>data_offset := word_of_int 8,
                       data_size := word_of_int 0 - word_of_int 8\<rparr>)
         (accept CHR '','' (skip_whitespace ''}''))\<close>
    using th [THEN conjunct1] unfolding n by simp
  have 2: "unat (word_of_int 0 - word_of_int 8 :: 64 word) = 18446744073709551608"
    using th by simp
  show ?thesis
    unfolding 1 using 2 by (simp add: entry_loop_stop ws_simps)
qed

subsection \<open>What the header parser can report\<close>

lemma string_body_error: "string_body max_len out p = Inl e \<Longrightarrow> parse_error e"
proof (induction max_len out p rule: string_body.induct)
  case (1 max_len out)
  then show ?case by (simp add: parse_error_def)
next
  case (2 max_len out c p)
  show ?case
  proof (cases "c = NUL \<or> c = DQUOTE \<or> \<not> length out < max_len - 1")
    case True
    with "2.prems" show ?thesis by (auto simp: parse_error_def split: if_splits)
  next
    case go: False
    show ?thesis
    proof (cases "c = BSLASH")
      case esc: True
      show ?thesis
      proof (cases p)
        case Nil
        with go esc "2.prems" show ?thesis by (simp add: parse_error_def)
      next
        case (Cons e' p')
        with go esc "2.prems" have "string_body max_len (out @ [unescape e']) p' = Inl e"
          by simp
        with "2.IH"(1) [of e' p'] go esc Cons show ?thesis by simp
      qed
    next
      case False
      with go "2.prems" have "string_body max_len (out @ [c]) p = Inl e" by simp
      with "2.IH"(2) go False show ?thesis by simp
    qed
  qed
qed

lemma parse_string_error:
  assumes "parse_string p max_len = Inl e"
  shows "parse_error e"
proof (cases "skip_whitespace p")
  case Nil
  with assms show ?thesis by (simp add: parse_string_def parse_error_def)
next
  case (Cons c p')
  show ?thesis
  proof (cases "c = DQUOTE")
    case True
    with Cons assms have "string_body max_len [] p' = Inl e" by (simp add: parse_string_def)
    then show ?thesis by (rule string_body_error)
  next
    case False
    with Cons assms show ?thesis by (simp add: parse_string_def parse_error_def)
  qed
qed

lemma entry_value_error:
  assumes "entry_value key t p = Inl e"
  shows "parse_error e"
proof -
  consider (d) "strcmp key ''dtype'' = 0"
    | (s) "strcmp key ''dtype'' \<noteq> 0" "strcmp key ''shape'' = 0"
    | (o) "strcmp key ''dtype'' \<noteq> 0" "strcmp key ''shape'' \<noteq> 0"
          "strcmp key ''data_offsets'' = 0"
    | (u) "strcmp key ''dtype'' \<noteq> 0" "strcmp key ''shape'' \<noteq> 0"
          "strcmp key ''data_offsets'' \<noteq> 0"
    by blast
  then show ?thesis
  proof cases
    case d
    with assms have "parse_string p 32 = Inl e"
      by (auto simp: entry_value_dtype split: sum.splits)
    then show ?thesis by (rule parse_string_error)
  next
    case s
    with assms show ?thesis
      by (auto simp: entry_value_shape parse_error_def split: if_splits prod.splits)
  next
    case o
    with assms show ?thesis
      by (auto simp: entry_value_data_offsets parse_error_def Let_def split: if_splits prod.splits)
  next
    case u
    with assms show ?thesis by (simp add: entry_value_unknown)
  qed
qed

lemma entry_loop_error: "entry_loop t p = Inl e \<Longrightarrow> parse_error e"
proof (induction t p rule: entry_loop.induct)
  case (1 t p)
  show ?case
  proof (cases "cur p \<noteq> NUL \<and> cur p \<noteq> CHR ''}''")
    case False
    with "1.prems" show ?thesis by (subst (asm) entry_loop.simps) auto
  next
    case run: True
    let ?p0 = "skip_whitespace p"
    show ?thesis
    proof (cases "cur ?p0 = CHR ''}''")
      case True
      with run "1.prems" show ?thesis by (subst (asm) entry_loop.simps) simp
    next
      case nb: False
      show ?thesis
      proof (cases "parse_string ?p0 64")
        case (Inl e')
        with run nb "1.prems" have "e = e'" by (subst (asm) entry_loop.simps) simp
        with Inl show ?thesis using parse_string_error by blast
      next
        case (Inr kp)
        obtain key p1 where kp: "kp = (key, p1)" by (cases kp)
        note ps = Inr [unfolded kp]
        let ?p2 = "skip_whitespace p1"
        show ?thesis
        proof (cases "cur ?p2 \<noteq> CHR '':''")
          case True
          with run nb ps "1.prems" have "e = FormatError"
            by (subst (asm) entry_loop.simps) (simp add: Let_def)
          then show ?thesis by (simp add: parse_error_def)
        next
          case col: False
          show ?thesis
          proof (cases "entry_value key t (skip_whitespace (tl ?p2))")
            case (Inl e')
            with run nb ps col "1.prems" have "e = e'"
              by (subst (asm) entry_loop.simps) (simp add: Let_def)
            with Inl show ?thesis using entry_value_error by blast
          next
            case (Inr tp)
            obtain t1 p3 where tp: "tp = (t1, p3)" by (cases tp)
            note ev = Inr [unfolded tp]
            from run nb ps col ev "1.prems"
            have rec: "entry_loop t1 (accept CHR '','' (skip_whitespace p3)) = Inl e"
              by (subst (asm) entry_loop.simps) (simp add: Let_def)
            show ?thesis
              using "1.IH" [OF run refl nb ps refl refl col ev refl rec] .
          qed
        qed
      qed
    qed
  qed
qed

lemma parse_tensor_entry_error: "parse_tensor_entry p t = Inl e \<Longrightarrow> parse_error e"
  by (auto simp: parse_tensor_entry_def Let_def parse_error_def split: if_splits sum.splits
      dest: entry_loop_error)

lemma header_loop_error: "header_loop lm ts p = Inl e \<Longrightarrow> parse_error e"
proof (induction lm ts p rule: header_loop.induct)
  case (1 lm ts p)
  show ?case
  proof (cases "cur p \<noteq> NUL \<and> cur p \<noteq> CHR ''}'' \<and> length ts < MAX_TENSORS lm")
    case False
    with "1.prems" show ?thesis by (subst (asm) header_loop.simps) auto
  next
    case run: True
    let ?p0 = "skip_whitespace p"
    show ?thesis
    proof (cases "cur ?p0 = CHR ''}''")
      case True
      with run "1.prems" show ?thesis by (subst (asm) header_loop.simps) simp
    next
      case nb: False
      show ?thesis
      proof (cases "parse_string ?p0 256")
        case (Inl e')
        with run nb "1.prems" have "e = e'" by (subst (asm) header_loop.simps) simp
        with Inl show ?thesis using parse_string_error by blast
      next
        case (Inr kp)
        obtain tensor_name p1 where kp: "kp = (tensor_name, p1)" by (cases kp)
        note ps = Inr [unfolded kp]
        let ?p2 = "skip_whitespace p1"
        show ?thesis
        proof (cases "cur ?p2 \<noteq> CHR '':''")
          case True
          with run nb ps "1.prems" have "e = FormatError"
            by (subst (asm) header_loop.simps) (simp add: Let_def)
          then show ?thesis by (simp add: parse_error_def)
        next
          case col: False
          show ?thesis
          proof (cases "strcmp tensor_name ''__metadata__'' = 0")
            case meta: True
            from run nb ps col meta "1.prems"
            have rec: "header_loop lm ts
                (accept CHR '','' (skip_whitespace (skip_metadata 0 (tl ?p2)))) = Inl e"
              by (subst (asm) header_loop.simps) (simp add: Let_def)
            show ?thesis
              using "1.IH"(1) [OF run refl nb ps refl refl col meta rec] .
          next
            case nometa: False
            show ?thesis
            proof (cases "parse_tensor_entry (tl ?p2) (new_entry lm tensor_name)")
              case (Inl e')
              with run nb ps col nometa "1.prems" have "e = e'"
                by (subst (asm) header_loop.simps) (simp add: Let_def)
              with Inl show ?thesis using parse_tensor_entry_error by blast
            next
              case (Inr tp)
              obtain t1 p3 where tp: "tp = (t1, p3)" by (cases tp)
              note pe = Inr [unfolded tp]
              from run nb ps col nometa pe "1.prems"
              have rec: "header_loop lm (ts @ [t1]) (accept CHR '','' (skip_whitespace p3)) = Inl e"
                by (subst (asm) header_loop.simps) (simp add: Let_def)
              show ?thesis
                using "1.IH"(2) [OF run refl nb ps refl refl col nometa pe refl rec] .
            qed
          qed
        qed
      qed
    qed
  qed
qed

lemma parse_header_error: "parse_header lm h = Inl e \<Longrightarrow> parse_error e"
  by (auto simp: parse_header_def Let_def parse_error_def split: if_splits dest: header_loop_error)

subsection \<open>Opening one file\<close>

lemmas open_simps = safetensors_open_def safetensors_close_def acquire_def release_def
  read_le64_def

lemma release_acquire: "release r (acquire r st) = st"
  by (simp add: release_def acquire_def)

lemma open_missing: "files fs pth = None \<Longrightarrow> safetensors_open lm fs pth st = (Inl IOError, st)"
  by (simp add: safetensors_open_def)

lemma open_short:
  "files fs pth = Some bytes \<Longrightarrow> length bytes < 8 \<Longrightarrow>
   safetensors_open lm fs pth st = (Inl IOError, st)"
  by (simp add: safetensors_open_def Let_def release_acquire)

lemma open_overlong:
  "files fs pth = Some bytes \<Longrightarrow> 8 \<le> length bytes \<Longrightarrow> length bytes - 8 < read_le64 bytes \<Longrightarrow>
   safetensors_open lm fs pth st = (Inl BoundsError, st)"
  by (simp add: safetensors_open_def Let_def release_def acquire_def)

lemma open_parse_failure:
  "files fs pth = Some bytes \<Longrightarrow> 8 \<le> length bytes \<Longrightarrow> read_le64 bytes \<le> length bytes - 8 \<Longrightarrow>
   parse_header lm (take (read_le64 bytes) (drop 8 bytes)) = Inl e \<Longrightarrow>
   safetensors_open lm fs pth st = (Inl e, st)"
  by (simp add: safetensors_open_def Let_def safetensors_close_def release_def acquire_def)

lemma open_success:
  "files fs pth = Some bytes \<Longrightarrow> 8 \<le> length bytes \<Longrightarrow> read_le64 bytes \<le> length bytes - 8 \<Longrightarrow>
   parse_header lm (take (read_le64 bytes) (drop 8 bytes)) = Inr ts \<Longrightarrow>
   safetensors_open lm fs pth st =
     (Inr \<lparr>path = pth, data = bytes, file_size = length bytes, header_size = read_le64 bytes,
           header_json = take (read_le64 bytes) (drop 8 bytes), tensors = ts\<rparr>,
      HeaderBuffer pth # PathString pth # FileStruct pth # Mapping pth # st)"
  by (simp add: safetensors_open_def Let_def release_def acquire_def)

text \<open>
  Claim C7. \<^verbatim>\<open>safetensors_open\<close> fails, producing no handle, on every file shorter than
  eight bytes and on every file whose little-endian 64-bit length prefix exceeds
  \<open>file_size - 8\<close>. In both cases the live resources after the call are the ones before
  it: the descriptor, and in the second case the mapping, have been given back.
\<close>

theorem safetensors_open_rejects_short_and_overlong:
  assumes "files fs pth = Some bytes"
  shows "(length bytes < 8 \<longrightarrow> safetensors_open lm fs pth st = (Inl IOError, st))
       \<and> (8 \<le> length bytes \<and> length bytes - 8 < read_le64 bytes
            \<longrightarrow> safetensors_open lm fs pth st = (Inl BoundsError, st))"
  using assms open_short [of fs pth bytes lm st] open_overlong [of fs pth bytes lm st]
  by blast

theorem safetensors_open_rejects_short_and_overlong_witness:
  "safetensors_open example_limits example_fs ''short'' [SetStruct] = (Inl IOError, [SetStruct])
   \<and> safetensors_open example_limits example_fs ''overlong'' [SetStruct]
       = (Inl BoundsError, [SetStruct])"
proof -
  have f1: "files example_fs ''short'' = Some ''abc''"
    by (simp add: example_fs_def example_files_def)
  have f2: "files example_fs ''overlong''
            = Some ([CHR 0x10, NUL, NUL, NUL, NUL, NUL, NUL, NUL] @ ''{}'')"
    by (simp add: example_fs_def example_files_def)
  show ?thesis
    using safetensors_open_rejects_short_and_overlong [OF f1, of example_limits "[SetStruct]"]
      safetensors_open_rejects_short_and_overlong [OF f2, of example_limits "[SetStruct]"]
    by (simp add: read_le64_def)
qed

lemma example_m:
  \<open>files example_fs ''m'' =
     Some ([CHR 0x1E, NUL, NUL, NUL, NUL, NUL, NUL, NUL]
           @ ''{"a":{"data_offsets":[0,100]}}'' @ replicate 50 NUL)\<close>
  by (simp add: example_fs_def example_files_def)

lemma example_n:
  \<open>files example_fs ''n'' =
     Some ([CHR 0x1C, NUL, NUL, NUL, NUL, NUL, NUL, NUL]
           @ ''{"b":{"data_offsets":[7,9]}}'' @ replicate 2 NUL)\<close>
  by (simp add: example_fs_def example_files_def)

lemma parse_example_m:
  \<open>parse_header example_limits ''{"a":{"data_offsets":[0,100]}}'' =
     Inr [\<lparr>name = ''a'', dtype = DTYPE_UNKNOWN, shape = [], data_offset = 0, data_size = 100\<rparr>]\<close>
  by (simp add: example_limits_def eval_simps)

lemma parse_example_n:
  \<open>parse_header example_limits ''{"b":{"data_offsets":[7,9]}}'' =
     Inr [\<lparr>name = ''b'', dtype = DTYPE_UNKNOWN, shape = [], data_offset = 7, data_size = 2\<rparr>]\<close>
  by (simp add: example_limits_def eval_simps)

text \<open>
  Claim C1, as stated, fails: the file \<open>m\<close> declares the range \<open>[0, 100]\<close> for its tensor,
  its data block has \<open>88 - 8 - 30 = 50\<close> bytes, and \<^verbatim>\<open>safetensors_open\<close> returns a handle
  whose table holds the entry with \<^verbatim>\<open>data_size = 100\<close>.
\<close>

theorem safetensors_open_accepts_out_of_range_entry:
  \<open>safetensors_open example_limits example_fs ''m'' [] =
     (Inr \<lparr>path = ''m'',
           data = [CHR 0x1E, NUL, NUL, NUL, NUL, NUL, NUL, NUL]
                  @ ''{"a":{"data_offsets":[0,100]}}'' @ replicate 50 NUL,
           file_size = 88, header_size = 30,
           header_json = ''{"a":{"data_offsets":[0,100]}}'',
           tensors = [\<lparr>name = ''a'', dtype = DTYPE_UNKNOWN, shape = [],
                       data_offset = 0, data_size = 100\<rparr>]\<rparr>,
      [HeaderBuffer ''m'', PathString ''m'', FileStruct ''m'', Mapping ''m''])
   \<and> \<not> unat (0 :: 64 word) + unat (100 :: 64 word) \<le> 88 - 8 - (30 :: nat)\<close>
proof -
  let ?bytes = \<open>[CHR 0x1E, NUL, NUL, NUL, NUL, NUL, NUL, NUL]
                @ ''{"a":{"data_offsets":[0,100]}}'' @ replicate 50 NUL\<close>
  have len: "length ?bytes = 88" by simp
  have hs: "read_le64 ?bytes = 30" by (simp add: read_le64_def)
  have hj: \<open>take 30 (drop 8 ?bytes) = ''{"a":{"data_offsets":[0,100]}}''\<close> by simp
  have c1: "8 \<le> length ?bytes" by simp
  have c2: "read_le64 ?bytes \<le> length ?bytes - 8" by (simp add: read_le64_def)
  have c3: "parse_header example_limits (take (read_le64 ?bytes) (drop 8 ?bytes)) =
     Inr [\<lparr>name = ''a'', dtype = DTYPE_UNKNOWN, shape = [], data_offset = 0, data_size = 100\<rparr>]"
    by (simp only: hs hj parse_example_m)
  have "safetensors_open example_limits example_fs ''m'' [] =
     (Inr \<lparr>path = ''m'', data = ?bytes, file_size = length ?bytes,
           header_size = read_le64 ?bytes,
           header_json = take (read_le64 ?bytes) (drop 8 ?bytes),
           tensors = [\<lparr>name = ''a'', dtype = DTYPE_UNKNOWN, shape = [],
                       data_offset = 0, data_size = 100\<rparr>]\<rparr>,
      [HeaderBuffer ''m'', PathString ''m'', FileStruct ''m'', Mapping ''m''])"
    by (rule open_success [OF example_m c1 c2 c3])
  then show ?thesis by (simp only: len hs hj) simp
qed

text \<open>
  Claim C1, amended. \<^verbatim>\<open>safetensors_open\<close> compares no entry's data range with the file.
  It fails with BoundsError exactly when the file has at least eight bytes and its
  declared header length exceeds \<open>file_size - 8\<close>; and whenever the file has at least
  eight bytes, the header length fits and the header parses to a table \<open>ts\<close>, it returns
  a handle whose table is \<open>ts\<close>, whatever \<^verbatim>\<open>data_offset\<close> and \<^verbatim>\<open>data_size\<close> the entries
  declare.
\<close>

theorem safetensors_open_bounds_check_is_header_only:
  "(fst (safetensors_open lm fs pth st) = Inl BoundsError \<longleftrightarrow>
      (\<exists>bytes. files fs pth = Some bytes \<and> 8 \<le> length bytes
          \<and> length bytes - 8 < read_le64 bytes))
   \<and> (\<forall>bytes ts.
        files fs pth = Some bytes \<and> 8 \<le> length bytes \<and> read_le64 bytes \<le> length bytes - 8
          \<and> parse_header lm (take (read_le64 bytes) (drop 8 bytes)) = Inr ts
        \<longrightarrow> (\<exists>sf st'. safetensors_open lm fs pth st = (Inr sf, st') \<and> tensors sf = ts
               \<and> file_size sf = length bytes \<and> header_size sf = read_le64 bytes))"
proof (intro conjI allI impI iffI)
  assume be: "fst (safetensors_open lm fs pth st) = Inl BoundsError"
  show "\<exists>bytes. files fs pth = Some bytes \<and> 8 \<le> length bytes \<and> length bytes - 8 < read_le64 bytes"
  proof (cases "files fs pth")
    case None
    with be show ?thesis by (simp add: open_missing)
  next
    case (Some bytes)
    show ?thesis
    proof (cases "length bytes < 8")
      case True
      with Some be show ?thesis by (simp add: open_short)
    next
      case ge: False
      show ?thesis
      proof (cases "length bytes - 8 < read_le64 bytes")
        case True
        with Some ge show ?thesis by simp
      next
        case fits: False
        show ?thesis
        proof (cases "parse_header lm (take (read_le64 bytes) (drop 8 bytes))")
          case (Inl e)
          then have "parse_error e" by (rule parse_header_error)
          moreover have "safetensors_open lm fs pth st = (Inl e, st)"
            using Some ge fits Inl by (intro open_parse_failure) simp_all
          ultimately show ?thesis using be by (simp add: parse_error_def)
        next
          case (Inr ts)
          have "fst (safetensors_open lm fs pth st) \<noteq> Inl BoundsError"
            using open_success [OF Some _ _ Inr, of st] ge fits by simp
          with be show ?thesis by simp
        qed
      qed
    qed
  qed
next
  assume "\<exists>bytes. files fs pth = Some bytes \<and> 8 \<le> length bytes \<and> length bytes - 8 < read_le64 bytes"
  then show "fst (safetensors_open lm fs pth st) = Inl BoundsError"
    by (auto simp: open_overlong)
next
  fix bytes ts
  assume a: "files fs pth = Some bytes \<and> 8 \<le> length bytes \<and> read_le64 bytes \<le> length bytes - 8
    \<and> parse_header lm (take (read_le64 bytes) (drop 8 bytes)) = Inr ts"
  then show "\<exists>sf st'. safetensors_open lm fs pth st = (Inr sf, st') \<and> tensors sf = ts
               \<and> file_size sf = length bytes \<and> header_size sf = read_le64 bytes"
    using open_success [of fs pth bytes lm ts st] by simp
qed

theorem safetensors_open_bounds_check_is_header_only_witness:
  \<open>fst (safetensors_open example_limits example_fs ''overlong'' []) = Inl BoundsError
   \<and> (\<exists>sf st'. safetensors_open example_limits example_fs ''n'' [] = (Inr sf, st')
         \<and> tensors sf = [\<lparr>name = ''b'', dtype = DTYPE_UNKNOWN, shape = [],
                            data_offset = 7, data_size = 2\<rparr>]
         \<and> file_size sf = 38 \<and> header_size sf = 28)\<close>
proof -
  let ?bytes = \<open>[CHR 0x1C, NUL, NUL, NUL, NUL, NUL, NUL, NUL]
                @ ''{"b":{"data_offsets":[7,9]}}'' @ replicate 2 NUL\<close>
  have len: "length ?bytes = 38" by simp
  have hs: "read_le64 ?bytes = 28" by (simp add: read_le64_def)
  have hj: \<open>take 28 (drop 8 ?bytes) = ''{"b":{"data_offsets":[7,9]}}''\<close> by simp
  have ph: "parse_header example_limits (take (read_le64 ?bytes) (drop 8 ?bytes)) =
     Inr [\<lparr>name = ''b'', dtype = DTYPE_UNKNOWN, shape = [], data_offset = 7, data_size = 2\<rparr>]"
    by (simp only: hs hj parse_example_n)
  have f2: "files example_fs ''overlong''
            = Some ([CHR 0x10, NUL, NUL, NUL, NUL, NUL, NUL, NUL] @ ''{}'')"
    by (simp add: example_fs_def example_files_def)
  have over: "\<exists>bytes. files example_fs ''overlong'' = Some bytes \<and> 8 \<le> length bytes
      \<and> length bytes - 8 < read_le64 bytes"
    unfolding f2 by (simp add: read_le64_def)
  have fits: "files example_fs ''n'' = Some ?bytes \<and> 8 \<le> length ?bytes
      \<and> read_le64 ?bytes \<le> length ?bytes - 8
      \<and> parse_header example_limits (take (read_le64 ?bytes) (drop 8 ?bytes)) =
          Inr [\<lparr>name = ''b'', dtype = DTYPE_UNKNOWN, shape = [], data_offset = 7, data_size = 2\<rparr>]"
    using example_n ph by (simp only: len hs) simp
  have 1: "fst (safetensors_open example_limits example_fs ''overlong'' []) = Inl BoundsError"
    using safetensors_open_bounds_check_is_header_only
      [of example_limits example_fs "''overlong''" "[]"] over by blast
  have 2: "\<exists>sf st'. safetensors_open example_limits example_fs ''n'' [] = (Inr sf, st')
      \<and> tensors sf = [\<lparr>name = ''b'', dtype = DTYPE_UNKNOWN, shape = [],
                            data_offset = 7, data_size = 2\<rparr>]
      \<and> file_size sf = length ?bytes \<and> header_size sf = read_le64 ?bytes"
    using safetensors_open_bounds_check_is_header_only
      [of example_limits example_fs "''n''" "[]"] fits by blast
  show ?thesis using 1 2 by (simp only: len hs) 
qed

subsection \<open>Comparing and sorting names, scanning a directory\<close>

lemma strcmp_eq_0_iff: "strcmp a b = 0 \<longleftrightarrow> a = b"
  by (induction a b rule: strcmp.induct) auto

lemma strcmp_le_iff: "strcmp a b \<le> 0 \<longleftrightarrow> a \<le> b"
  by (induction a b rule: strcmp.induct) (auto simp: less_char_def simp del: less_char_simp)

lemma set_qsort_insert: "mset (qsort_insert cmp x ys) = add_mset x (mset ys)"
  by (induction ys) auto

lemma mset_qsort: "mset (qsort cmp xs) = mset xs"
  by (induction xs) (auto simp: qsort_def set_qsort_insert)

lemma sorted_qsort_insert:
  "sorted ys \<Longrightarrow> sorted (qsort_insert strcmp x ys)"
proof (induction ys)
  case Nil
  then show ?case by simp
next
  case (Cons y ys)
  have s: "set (qsort_insert strcmp x ys) = insert x (set ys)"
    using set_qsort_insert [of strcmp x ys] by (metis set_mset_mset set_mset_add_mset_insert)
  show ?case
  proof (cases "strcmp x y \<le> 0")
    case True
    then have "x \<le> y" by (simp add: strcmp_le_iff)
    with Cons.prems True show ?thesis by auto
  next
    case False
    then have "y \<le> x" using strcmp_le_iff [of x y] by simp
    with Cons False show ?thesis by (auto simp: s)
  qed
qed

lemma sorted_qsort: "sorted (qsort strcmp xs)"
  by (induction xs) (auto simp: qsort_def sorted_qsort_insert)


lemma scan_dir_eq:
  "length names \<le> MAX_SHARDS lm \<Longrightarrow>
   scan_dir lm names entries =
     names @ map (snprintf 256) (take (MAX_SHARDS lm - length names) (filter is_shard_name entries))"
proof (induction entries arbitrary: names)
  case Nil
  then show ?case by simp
next
  case (Cons e es)
  show ?case
  proof (cases "length names < MAX_SHARDS lm")
    case False
    with Cons.prems show ?thesis by simp
  next
    case lt: True
    show ?thesis
    proof (cases "is_shard_name e")
      case True
      have "MAX_SHARDS lm - length names = Suc (MAX_SHARDS lm - Suc (length names))"
        using lt by simp
      with True lt Cons.IH [of "names @ [snprintf 256 e]"] show ?thesis by simp
    next
      case False
      with lt Cons.IH [of names] Cons.prems show ?thesis by simp
    qed
  qed
qed


lemma scan_dir_none:
  "\<forall>e \<in> set entries. \<not> is_shard_name e \<Longrightarrow> scan_dir lm [] entries = []"
  by (simp add: scan_dir_eq filter_False)


lemma strstr_iff: "strstr hay needle \<longleftrightarrow> (\<exists>a b. hay = a @ needle @ b)"
proof (induction hay)
  case Nil
  then show ?case by auto
next
  case (Cons c hay)
  show ?case
  proof
    assume "strstr (c # hay) needle"
    then consider "take (length needle) (c # hay) = needle" | "strstr hay needle" by auto
    then show "\<exists>a b. c # hay = a @ needle @ b"
    proof cases
      case 1
      then have "c # hay = [] @ needle @ drop (length needle) (c # hay)"
        by (metis append_Nil append_take_drop_id)
      then show ?thesis by blast
    next
      case 2
      then obtain a b where "hay = a @ needle @ b" using Cons.IH by blast
      then have "c # hay = (c # a) @ needle @ b" by simp
      then show ?thesis by blast
    qed
  next
    assume "\<exists>a b. c # hay = a @ needle @ b"
    then obtain a b where ab: "c # hay = a @ needle @ b" by blast
    show "strstr (c # hay) needle"
    proof (cases a)
      case Nil
      with ab have "take (length needle) (c # hay) = needle" by simp
      then show ?thesis by simp
    next
      case (Cons a0 a')
      with ab have "hay = a' @ needle @ b" by simp
      then have "strstr hay needle" using Cons.IH by blast
      then show ?thesis by simp
    qed
  qed
qed

lemma is_shard_name_iff:
  "is_shard_name n \<longleftrightarrow> (\<exists>r. n = ''model-'' @ r) \<and> (\<exists>a b. n = a @ ''.safetensors'' @ b)"
proof -
  have "take 6 n = ''model-'' \<longleftrightarrow> (\<exists>r. n = ''model-'' @ r)"
  proof
    assume "take 6 n = ''model-''"
    then have "n = ''model-'' @ drop 6 n" by (metis append_take_drop_id)
    then show "\<exists>r. n = ''model-'' @ r" by blast
  next
    assume "\<exists>r. n = ''model-'' @ r"
    then show "take 6 n = ''model-''" by auto
  qed
  then show ?thesis by (simp only: is_shard_name_def strstr_iff)
qed

subsection \<open>Opening a set of shards\<close>

lemma safetensors_open_cases:
  obtains (missing) "files fs pth = None" "safetensors_open lm fs pth st = (Inl IOError, st)"
  | (short) bytes where "files fs pth = Some bytes" "length bytes < 8"
      "safetensors_open lm fs pth st = (Inl IOError, st)"
  | (overlong) bytes where "files fs pth = Some bytes" "8 \<le> length bytes"
      "length bytes - 8 < read_le64 bytes" "safetensors_open lm fs pth st = (Inl BoundsError, st)"
  | (malformed) bytes e where "files fs pth = Some bytes" "8 \<le> length bytes"
      "read_le64 bytes \<le> length bytes - 8"
      "parse_header lm (take (read_le64 bytes) (drop 8 bytes)) = Inl e"
      "safetensors_open lm fs pth st = (Inl e, st)"
  | (opened) bytes ts where "files fs pth = Some bytes" "8 \<le> length bytes"
      "read_le64 bytes \<le> length bytes - 8"
      "parse_header lm (take (read_le64 bytes) (drop 8 bytes)) = Inr ts"
      "safetensors_open lm fs pth st =
         (Inr \<lparr>path = pth, data = bytes, file_size = length bytes, header_size = read_le64 bytes,
               header_json = take (read_le64 bytes) (drop 8 bytes), tensors = ts\<rparr>,
          HeaderBuffer pth # PathString pth # FileStruct pth # Mapping pth # st)"
proof (cases "files fs pth")
  case None
  then show ?thesis using missing open_missing by blast
next
  case (Some bytes)
  show ?thesis
  proof (cases "length bytes < 8")
    case True
    then show ?thesis using short Some open_short by blast
  next
    case ge: False
    show ?thesis
    proof (cases "length bytes - 8 < read_le64 bytes")
      case True
      with ge show ?thesis using overlong [OF Some] open_overlong [OF Some] by simp
    next
      case fits: False
      show ?thesis
      proof (cases "parse_header lm (take (read_le64 bytes) (drop 8 bytes))")
        case (Inl e)
        with ge fits show ?thesis
          using malformed [OF Some _ _ Inl] open_parse_failure [OF Some _ _ Inl] by simp
      next
        case (Inr ts)
        with ge fits show ?thesis
          using opened [OF Some _ _ Inr] open_success [OF Some _ _ Inr] by simp
      qed
    qed
  qed
qed

lemma open_failure_state: "safetensors_open lm fs pth st = (Inl e, st') \<Longrightarrow> st' = st"
  by (cases rule: safetensors_open_cases [of fs pth lm st]) auto

lemma open_success_state:
  "safetensors_open lm fs pth st = (Inr sf, st') \<Longrightarrow>
   path sf = pth \<and> st' = HeaderBuffer pth # PathString pth # FileStruct pth # Mapping pth # st"
  by (cases rule: safetensors_open_cases [of fs pth lm st]) auto

lemma open_shards_success:
  "open_shards lm fs dir ms names st = (Inr ms', st') \<Longrightarrow>
   num_shards ms' = num_shards ms \<and>
   (\<exists>sfs. shards ms' = shards ms @ sfs \<and>
      map path sfs = map (\<lambda>n. snprintf 4096 (dir @ ''/'' @ n)) names)"
proof (induction names arbitrary: ms st)
  case Nil
  then show ?case by simp
next
  case (Cons n names)
  let ?pth = "snprintf 4096 (dir @ ''/'' @ n)"
  obtain r st1 where o: "safetensors_open lm fs ?pth st = (r, st1)"
    by (cases "safetensors_open lm fs ?pth st")
  show ?case
  proof (cases r)
    case (Inl e)
    with o Cons.prems show ?thesis by simp
  next
    case (Inr sf)
    with o Cons.prems
    have rec: "open_shards lm fs dir (ms\<lparr>shards := shards ms @ [sf]\<rparr>) names st1 = (Inr ms', st')"
      by simp
    from Cons.IH [OF rec] obtain sfs where n: "num_shards ms' = num_shards ms"
      and sh: "shards ms' = (shards ms @ [sf]) @ sfs"
      and pa: "map path sfs = map (\<lambda>n. snprintf 4096 (dir @ ''/'' @ n)) names"
      by auto
    have "path sf = ?pth" using o Inr open_success_state by blast
    with sh pa have "shards ms' = shards ms @ (sf # sfs) \<and>
       map path (sf # sfs) = map (\<lambda>n. snprintf 4096 (dir @ ''/'' @ n)) (n # names)"
      by simp
    with n show ?thesis by blast
  qed
qed

lemma multi_open_fast:
  assumes "safetensors_open lm fs (snprintf 4096 (dir @ ''/model.safetensors'')) (acquire SetStruct st)
           = (Inr sf, st')"
  shows "multi_safetensors_open lm fs dir st = (Inr \<lparr>shards = [sf], num_shards = 1\<rparr>, st')"
  using assms by (simp add: multi_safetensors_open_def Let_def)

lemma multi_open_slow:
  assumes "safetensors_open lm fs (snprintf 4096 (dir @ ''/model.safetensors'')) (acquire SetStruct st)
           = (Inl e, st2)"
  shows "multi_safetensors_open lm fs dir st =
    (case dirs fs dir of
       None \<Rightarrow> (Inl IOError, st)
     | Some entries \<Rightarrow>
         if scan_dir lm [] entries = [] then (Inl NotFoundError, st)
         else
           (case open_shards lm fs dir \<lparr>shards = [], num_shards = 0\<rparr>
                   (qsort strcmp (scan_dir lm [] entries)) (acquire SetStruct st) of
              (Inl e', st4) \<Rightarrow> (Inl e', st4)
            | (Inr ms, st4) \<Rightarrow>
                (Inr (ms\<lparr>num_shards := length (scan_dir lm [] entries)\<rparr>), st4)))"
proof -
  have st2: "st2 = acquire SetStruct st" using assms by (rule open_failure_state)
  show ?thesis
    using assms
    by (simp add: multi_safetensors_open_def Let_def st2 release_acquire split: option.splits)
qed

lemma take_le_mono: "x \<le> y \<Longrightarrow> take k x \<le> take k (y :: string)"
proof (induction k arbitrary: x y)
  case 0
  then show ?case by simp
next
  case (Suc k)
  show ?case
  proof (cases x)
    case Nil
    then show ?thesis by simp
  next
    case xc: (Cons a x')
    show ?thesis
    proof (cases y)
      case Nil
      with xc Suc.prems show ?thesis by simp
    next
      case (Cons b y')
      with xc Suc.prems have "a < b \<or> a = b \<and> x' \<le> y'" by simp
      then show ?thesis using Suc.IH [of x' y'] xc Cons by auto
    qed
  qed
qed

lemma append_le_mono: "x \<le> y \<Longrightarrow> p @ x \<le> p @ (y :: string)"
  by (induction p) auto

lemma discovered_set:
  assumes "multi_safetensors_open lm fs dir st = (Inr ms, st')"
  shows "num_shards ms = length (shards ms) \<and> sorted (map path (shards ms))"
proof -
  let ?single = "snprintf 4096 (dir @ ''/model.safetensors'')"
  obtain r st2 where o: "safetensors_open lm fs ?single (acquire SetStruct st) = (r, st2)"
    by (cases "safetensors_open lm fs ?single (acquire SetStruct st)")
  show ?thesis
  proof (cases r)
    case (Inr sf)
    with o assms show ?thesis using multi_open_fast [of lm fs dir st sf st2] by auto
  next
    case (Inl e)
    note slow = multi_open_slow [OF o [unfolded Inl]]
    from assms slow obtain entries where d: "dirs fs dir = Some entries"
      by (cases "dirs fs dir") auto
    let ?names = "scan_dir lm [] entries"
    from assms slow d have ne: "?names \<noteq> []" by (auto split: if_splits)
    obtain r' st4 where os: "open_shards lm fs dir \<lparr>shards = [], num_shards = 0\<rparr>
        (qsort strcmp ?names) (acquire SetStruct st) = (r', st4)"
      by (cases "open_shards lm fs dir \<lparr>shards = [], num_shards = 0\<rparr>
        (qsort strcmp ?names) (acquire SetStruct st)")
    from assms slow d ne os obtain ms0 where r': "r' = Inr ms0"
      and ms: "ms = ms0\<lparr>num_shards := length ?names\<rparr>"
      by (cases r') auto
    from open_shards_success [OF os [unfolded r']]
    have pa: "map path (shards ms0) = map (\<lambda>n. snprintf 4096 (dir @ ''/'' @ n)) (qsort strcmp ?names)"
      by auto
    have len: "length (shards ms0) = length ?names"
      using arg_cong [OF pa, of length] arg_cong [OF mset_qsort [of strcmp ?names], of size]
      by simp
    have "sorted (map (\<lambda>n. snprintf 4096 (dir @ ''/'' @ n)) (qsort strcmp ?names))"
      using sorted_qsort [of ?names]
      by (simp add: sorted_map sorted_wrt_mono_rel [where P = "(\<le>)"] snprintf_def take_le_mono append_le_mono)
    with pa len ms show ?thesis by simp
  qed
qed

subsection \<open>Looking a tensor up\<close>

lemma find_in_table_None:
  "find_in_table ts nm = None \<longleftrightarrow> (\<forall>t \<in> set ts. name t \<noteq> nm)"
  by (induction ts) (auto simp: strcmp_eq_0_iff)

lemma find_in_table_Some:
  "find_in_table ts nm = Some t \<Longrightarrow>
   \<exists>i < length ts. ts ! i = t \<and> name t = nm \<and> (\<forall>j < i. name (ts ! j) \<noteq> nm)"
proof (induction ts)
  case Nil
  then show ?case by simp
next
  case (Cons a ts)
  show ?case
  proof (cases "strcmp (name a) nm = 0")
    case True
    with Cons.prems have "a = t" by simp
    with True have "(a # ts) ! 0 = t \<and> name t = nm \<and> (\<forall>j < 0. name ((a # ts) ! j) \<noteq> nm)"
      by (simp add: strcmp_eq_0_iff)
    then show ?thesis by blast
  next
    case False
    with Cons.prems have "find_in_table ts nm = Some t" by simp
    from Cons.IH [OF this] obtain i where i: "i < length ts" "ts ! i = t" "name t = nm"
      "\<forall>j < i. name (ts ! j) \<noteq> nm" by blast
    have "\<forall>j < Suc i. name ((a # ts) ! j) \<noteq> nm"
    proof (intro allI impI)
      fix j assume "j < Suc i"
      then show "name ((a # ts) ! j) \<noteq> nm"
        using False i(4) by (cases j) (auto simp: strcmp_eq_0_iff)
    qed
    with i have "Suc i < length (a # ts) \<and> (a # ts) ! Suc i = t \<and> name t = nm
        \<and> (\<forall>j < Suc i. name ((a # ts) ! j) \<noteq> nm)" by simp
    then show ?thesis by blast
  qed
qed

lemma find_in_shards_None:
  "find_in_shards sfs nm = None \<longleftrightarrow> (\<forall>sf \<in> set sfs. \<forall>t \<in> set (tensors sf). name t \<noteq> nm)"
proof (induction sfs)
  case Nil
  then show ?case by simp
next
  case (Cons a sfs)
  show ?case
  proof (cases "find_in_table (tensors a) nm")
    case None
    then have "\<forall>t \<in> set (tensors a). name t \<noteq> nm" by (simp add: find_in_table_None)
    with None Cons.IH show ?thesis by simp
  next
    case (Some t0)
    then have "\<not> (\<forall>t \<in> set (tensors a). name t \<noteq> nm)"
      using find_in_table_None [of "tensors a" nm] by simp
    with Some show ?thesis by auto
  qed
qed

lemma find_in_shards_Some:
  "find_in_shards sfs nm = Some (t, sf) \<Longrightarrow>
   \<exists>s < length sfs. sfs ! s = sf \<and> find_in_table (tensors sf) nm = Some t
      \<and> (\<forall>s' < s. \<forall>t' \<in> set (tensors (sfs ! s')). name t' \<noteq> nm)"
proof (induction sfs)
  case Nil
  then show ?case by simp
next
  case (Cons a sfs)
  show ?case
  proof (cases "find_in_table (tensors a) nm")
    case (Some t0)
    with Cons.prems have "t0 = t" "a = sf" by simp_all
    with Some have "(a # sfs) ! 0 = sf \<and> find_in_table (tensors sf) nm = Some t
       \<and> (\<forall>s' < 0. \<forall>t' \<in> set (tensors ((a # sfs) ! s')). name t' \<noteq> nm)" by simp
    then show ?thesis by blast
  next
    case None
    with Cons.prems have "find_in_shards sfs nm = Some (t, sf)" by simp
    from Cons.IH [OF this] obtain s where s: "s < length sfs" "sfs ! s = sf"
      "find_in_table (tensors sf) nm = Some t"
      "\<forall>s' < s. \<forall>t' \<in> set (tensors (sfs ! s')). name t' \<noteq> nm" by blast
    have "\<forall>s' < Suc s. \<forall>t' \<in> set (tensors ((a # sfs) ! s')). name t' \<noteq> nm"
    proof (intro allI impI)
      fix s' assume "s' < Suc s"
      then show "\<forall>t' \<in> set (tensors ((a # sfs) ! s')). name t' \<noteq> nm"
        using None s(4) by (cases s') (auto simp: find_in_table_None)
    qed
    with s have "Suc s < length (a # sfs) \<and> (a # sfs) ! Suc s = sf
       \<and> find_in_table (tensors sf) nm = Some t
       \<and> (\<forall>s' < Suc s. \<forall>t' \<in> set (tensors ((a # sfs) ! s')). name t' \<noteq> nm)" by simp
    then show ?thesis by blast
  qed
qed

subsection \<open>The order in which shards are opened\<close>

lemmas multi_simps = multi_safetensors_open_def multi_safetensors_close_def is_shard_name_def
  snprintf_def qsort_def example_model_fs_def example_model_files_def example_model_dirs_def
  example_limits_def




lemma open_example_two:
  "multi_safetensors_open example_limits example_model_fs ''two'' [] =
     (Inr example_set,
      [HeaderBuffer ''two/model-2.safetensors'', PathString ''two/model-2.safetensors'',
       FileStruct ''two/model-2.safetensors'', Mapping ''two/model-2.safetensors'',
       HeaderBuffer ''two/model-1.safetensors'', PathString ''two/model-1.safetensors'',
       FileStruct ''two/model-1.safetensors'', Mapping ''two/model-1.safetensors'',
       SetStruct])"
  by (simp add: multi_simps open_simps eval_simps example_set_def)



subsection \<open>The fast path and the empty directory\<close>

lemma snprintf_short: "length s < n \<Longrightarrow> snprintf n s = s"
  by (simp add: snprintf_def)

lemma multi_open_not_found:
  assumes fast: "fst (safetensors_open lm fs (snprintf 4096 (dir @ ''/model.safetensors''))
                   (acquire SetStruct st)) = Inl e"
    and d: "dirs fs dir = Some entries"
    and none: "\<forall>n \<in> set entries. \<not> is_shard_name n"
  shows "multi_safetensors_open lm fs dir st = (Inl NotFoundError, st)"
proof -
  obtain st2 where o: "safetensors_open lm fs (snprintf 4096 (dir @ ''/model.safetensors''))
      (acquire SetStruct st) = (Inl e, st2)"
    using fast by (cases "safetensors_open lm fs (snprintf 4096 (dir @ ''/model.safetensors''))
      (acquire SetStruct st)") simp
  have "scan_dir lm [] entries = []" using none by (rule scan_dir_none)
  with multi_open_slow [OF o] d show ?thesis by simp
qed

text \<open>
  Claim C5. Discovery first opens \<open>model_directory/model.safetensors\<close> (the path as
  written whenever it fits the 4096-byte buffer). If that open succeeds, the result is the
  set of exactly that one shard, whatever else the directory holds, shard files included.
  If it fails and the directory can be listed but no entry has the prefix \<^verbatim>\<open>model-\<close> and
  contains \<^verbatim>\<open>.safetensors\<close>, discovery fails with NotFoundError and leaves no resource
  behind.
\<close>

theorem discovery_fast_path_and_not_found:
  "(\<forall>sf st'. safetensors_open lm fs (snprintf 4096 (dir @ ''/model.safetensors''))
                 (acquire SetStruct st) = (Inr sf, st')
        \<longrightarrow> multi_safetensors_open lm fs dir st = (Inr \<lparr>shards = [sf], num_shards = 1\<rparr>, st'))
   \<and> (length dir + 18 < 4096
        \<longrightarrow> snprintf 4096 (dir @ ''/model.safetensors'') = dir @ ''/model.safetensors'')
   \<and> (\<forall>e entries.
          fst (safetensors_open lm fs (snprintf 4096 (dir @ ''/model.safetensors''))
                 (acquire SetStruct st)) = Inl e
          \<and> dirs fs dir = Some entries
          \<and> (\<forall>n \<in> set entries. \<not> is_shard_name n)
        \<longrightarrow> multi_safetensors_open lm fs dir st = (Inl NotFoundError, st))
   \<and> (\<forall>n. is_shard_name n \<longleftrightarrow>
          (\<exists>r. n = ''model-'' @ r) \<and> (\<exists>a b. n = a @ ''.safetensors'' @ b))"
proof (intro conjI allI impI)
  fix sf st'
  assume "safetensors_open lm fs (snprintf 4096 (dir @ ''/model.safetensors''))
            (acquire SetStruct st) = (Inr sf, st')"
  then show "multi_safetensors_open lm fs dir st = (Inr \<lparr>shards = [sf], num_shards = 1\<rparr>, st')"
    by (rule multi_open_fast)
next
  assume "length dir + 18 < 4096"
  then show "snprintf 4096 (dir @ ''/model.safetensors'') = dir @ ''/model.safetensors''"
    by (intro snprintf_short) simp
next
  fix e entries
  assume "fst (safetensors_open lm fs (snprintf 4096 (dir @ ''/model.safetensors''))
                 (acquire SetStruct st)) = Inl e
          \<and> dirs fs dir = Some entries
          \<and> (\<forall>n \<in> set entries. \<not> is_shard_name n)"
  then show "multi_safetensors_open lm fs dir st = (Inl NotFoundError, st)"
    using multi_open_not_found [of lm fs dir st e entries] by blast
next
  fix n
  show "is_shard_name n \<longleftrightarrow> (\<exists>r. n = ''model-'' @ r) \<and> (\<exists>a b. n = a @ ''.safetensors'' @ b)"
    by (rule is_shard_name_iff)
qed

lemma fast_example_one:
  "safetensors_open example_limits example_model_fs (snprintf 4096 (''one'' @ ''/model.safetensors''))
     (acquire SetStruct []) =
   (Inr \<lparr>path = ''one/model.safetensors'',
         data = [CHR 0x02, NUL, NUL, NUL, NUL, NUL, NUL, NUL] @ ''{}'',
         file_size = 10, header_size = 2, header_json = ''{}'', tensors = []\<rparr>,
    [HeaderBuffer ''one/model.safetensors'', PathString ''one/model.safetensors'',
     FileStruct ''one/model.safetensors'', Mapping ''one/model.safetensors'', SetStruct])"
  by (simp add: multi_simps open_simps eval_simps)

lemma fast_example_none:
  "fst (safetensors_open example_limits example_model_fs
          (snprintf 4096 (''none'' @ ''/model.safetensors'')) (acquire SetStruct [])) = Inl IOError"
  by (simp add: multi_simps open_simps)

theorem discovery_fast_path_and_not_found_witness:
  "multi_safetensors_open example_limits example_model_fs ''one'' [] =
     (Inr \<lparr>shards = [\<lparr>path = ''one/model.safetensors'',
                        data = [CHR 0x02, NUL, NUL, NUL, NUL, NUL, NUL, NUL] @ ''{}'',
                        file_size = 10, header_size = 2, header_json = ''{}'', tensors = []\<rparr>],
           num_shards = 1\<rparr>,
      [HeaderBuffer ''one/model.safetensors'', PathString ''one/model.safetensors'',
       FileStruct ''one/model.safetensors'', Mapping ''one/model.safetensors'', SetStruct])
   \<and> is_shard_name ''model-1.safetensors''
   \<and> dirs example_model_fs ''one'' =
       Some [''.'', ''..'', ''model-1.safetensors'', ''model.safetensors'']
   \<and> multi_safetensors_open example_limits example_model_fs ''none'' [] = (Inl NotFoundError, [])"
proof -
  note th1 = discovery_fast_path_and_not_found [of example_limits example_model_fs "''one''" "[]"]
  note th2 = discovery_fast_path_and_not_found [of example_limits example_model_fs "''none''" "[]"]
  have 1: "multi_safetensors_open example_limits example_model_fs ''one'' [] =
     (Inr \<lparr>shards = [\<lparr>path = ''one/model.safetensors'',
                        data = [CHR 0x02, NUL, NUL, NUL, NUL, NUL, NUL, NUL] @ ''{}'',
                        file_size = 10, header_size = 2, header_json = ''{}'', tensors = []\<rparr>],
           num_shards = 1\<rparr>,
      [HeaderBuffer ''one/model.safetensors'', PathString ''one/model.safetensors'',
       FileStruct ''one/model.safetensors'', Mapping ''one/model.safetensors'', SetStruct])"
    using th1 [THEN conjunct1, rule_format, OF fast_example_one] .
  have 2: "is_shard_name ''model-1.safetensors''" by (simp add: is_shard_name_def)
  have 3: "dirs example_model_fs ''one'' =
       Some [''.'', ''..'', ''model-1.safetensors'', ''model.safetensors'']"
    by (simp add: example_model_fs_def example_model_dirs_def)
  have d: "dirs example_model_fs ''none'' = Some [''.'', ''..'', ''config.json'']"
    by (simp add: example_model_fs_def example_model_dirs_def)
  have nn: "\<forall>n \<in> set [''.'', ''..'', ''config.json'']. \<not> is_shard_name n"
    by (simp add: is_shard_name_def)
  have h: "fst (safetensors_open example_limits example_model_fs
          (snprintf 4096 (''none'' @ ''/model.safetensors'')) (acquire SetStruct [])) = Inl IOError
      \<and> dirs example_model_fs ''none'' = Some [''.'', ''..'', ''config.json'']
      \<and> (\<forall>n \<in> set [''.'', ''..'', ''config.json'']. \<not> is_shard_name n)"
    using fast_example_none d nn by (intro conjI)
  have 4: "multi_safetensors_open example_limits example_model_fs ''none'' [] = (Inl NotFoundError, [])"
    using th2 [THEN conjunct2, THEN conjunct2, THEN conjunct1, rule_format, OF h] .
  show ?thesis using 1 2 3 4 by (intro conjI)
qed

subsection \<open>The first match, in set order\<close>

lemma find_Some_index:
  assumes "multi_safetensors_find ms nm = Some (t, sf)"
  shows "\<exists>s i. s < num_shards ms \<and> s < length (shards ms) \<and> shards ms ! s = sf
           \<and> i < length (tensors sf) \<and> tensors sf ! i = t \<and> strcmp (name t) nm = 0
           \<and> (\<forall>s' < s. \<forall>t' \<in> set (tensors (shards ms ! s')). name t' \<noteq> nm)
           \<and> (\<forall>i' < i. name (tensors sf ! i') \<noteq> nm)"
proof -
  let ?sfs = "take (num_shards ms) (shards ms)"
  from assms have "find_in_shards ?sfs nm = Some (t, sf)"
    by (simp add: multi_safetensors_find_def)
  from find_in_shards_Some [OF this] obtain s where s: "s < length ?sfs" "?sfs ! s = sf"
    "find_in_table (tensors sf) nm = Some t"
    "\<forall>s' < s. \<forall>t' \<in> set (tensors (?sfs ! s')). name t' \<noteq> nm" by blast
  from find_in_table_Some [OF s(3)] obtain i where i: "i < length (tensors sf)"
    "tensors sf ! i = t" "name t = nm" "\<forall>j < i. name (tensors sf ! j) \<noteq> nm" by blast
  have b: "s < num_shards ms" "s < length (shards ms)" using s(1) by simp_all
  have e: "shards ms ! s = sf" using s(2) b by simp
  have m: "\<forall>s' < s. \<forall>t' \<in> set (tensors (shards ms ! s')). name t' \<noteq> nm"
  proof (intro allI impI)
    fix s' assume "s' < s"
    with s(4) b show "\<forall>t' \<in> set (tensors (shards ms ! s')). name t' \<noteq> nm" by auto
  qed
  have z: "strcmp (name t) nm = 0" using i(3) by (simp add: strcmp_eq_0_iff)
  from b e i(1,2) z m i(4) show ?thesis by blast
qed

lemma find_earliest_path:
  assumes o: "multi_safetensors_open lm fs dir st = (Inr ms, st')"
    and f: "multi_safetensors_find ms nm = Some (t, sf)"
    and m: "sf' \<in> set (shards ms)" "t' \<in> set (tensors sf')" "name t' = nm"
  shows "strcmp (path sf) (path sf') \<le> 0"
proof -
  from discovered_set [OF o] have n: "num_shards ms = length (shards ms)"
    and srt: "sorted (map path (shards ms))" by simp_all
  from find_Some_index [OF f] obtain s where s: "s < length (shards ms)" "shards ms ! s = sf"
    "\<forall>s' < s. \<forall>t' \<in> set (tensors (shards ms ! s')). name t' \<noteq> nm" by blast
  from m(1) obtain k where k: "k < length (shards ms)" "shards ms ! k = sf'"
    by (auto simp: in_set_conv_nth)
  have "\<not> k < s" using s(3) k(2) m(2,3) by blast
  then have "s \<le> k" by simp
  then have "map path (shards ms) ! s \<le> map path (shards ms) ! k"
    using srt k(1) by (simp add: sorted_iff_nth_mono)
  then have "path sf \<le> path sf'" using s(1,2) k by simp
  then show ?thesis by (simp add: strcmp_le_iff)
qed

text \<open>
  Claim C4. \<^verbatim>\<open>multi_safetensors_find\<close> returns nothing exactly when no shard of the set
  has a tensor of the given name. Otherwise it returns the first exact match, scanning
  the shards in set order and each table in parse order, together with the shard that
  owns it: no earlier shard and no earlier entry of the same table carries the name. In a
  set built by discovery the shards stand in \<^verbatim>\<open>strcmp\<close> order of their paths, so among
  all shards that hold the name the owner returned is the lexicographically earliest.
\<close>

theorem multi_safetensors_find_first_match:
  "(multi_safetensors_find ms nm = None \<longleftrightarrow>
      (\<forall>sf \<in> set (take (num_shards ms) (shards ms)). \<forall>t \<in> set (tensors sf). name t \<noteq> nm))
   \<and> (\<forall>t sf. multi_safetensors_find ms nm = Some (t, sf) \<longrightarrow>
        (\<exists>s i. s < num_shards ms \<and> s < length (shards ms) \<and> shards ms ! s = sf
           \<and> i < length (tensors sf) \<and> tensors sf ! i = t \<and> strcmp (name t) nm = 0
           \<and> (\<forall>s' < s. \<forall>t' \<in> set (tensors (shards ms ! s')). name t' \<noteq> nm)
           \<and> (\<forall>i' < i. name (tensors sf ! i') \<noteq> nm)))
   \<and> (\<forall>lm fs dir st st' t sf.
        multi_safetensors_open lm fs dir st = (Inr ms, st')
        \<and> multi_safetensors_find ms nm = Some (t, sf) \<longrightarrow>
        (\<forall>sf' \<in> set (shards ms).
           (\<exists>t' \<in> set (tensors sf'). name t' = nm) \<longrightarrow> strcmp (path sf) (path sf') \<le> 0))"
proof (intro conjI allI impI ballI)
  show "multi_safetensors_find ms nm = None \<longleftrightarrow>
      (\<forall>sf \<in> set (take (num_shards ms) (shards ms)). \<forall>t \<in> set (tensors sf). name t \<noteq> nm)"
    by (simp only: multi_safetensors_find_def find_in_shards_None)
next
  fix t sf
  assume "multi_safetensors_find ms nm = Some (t, sf)"
  then show "\<exists>s i. s < num_shards ms \<and> s < length (shards ms) \<and> shards ms ! s = sf
           \<and> i < length (tensors sf) \<and> tensors sf ! i = t \<and> strcmp (name t) nm = 0
           \<and> (\<forall>s' < s. \<forall>t' \<in> set (tensors (shards ms ! s')). name t' \<noteq> nm)
           \<and> (\<forall>i' < i. name (tensors sf ! i') \<noteq> nm)"
    by (rule find_Some_index)
next
  fix lm fs dir st st' t sf sf'
  assume a: "multi_safetensors_open lm fs dir st = (Inr ms, st')
        \<and> multi_safetensors_find ms nm = Some (t, sf)"
    and b: "sf' \<in> set (shards ms)" and c: "\<exists>t' \<in> set (tensors sf'). name t' = nm"
  from c obtain t' where "t' \<in> set (tensors sf')" "name t' = nm" by blast
  with a b show "strcmp (path sf) (path sf') \<le> 0"
    using find_earliest_path [of lm fs dir st ms st' nm t sf sf' t'] by blast
qed

lemma find_example_a:
  \<open>multi_safetensors_find example_set ''a'' =
     Some (\<lparr>name = ''a'', dtype = DTYPE_UNKNOWN, shape = [], data_offset = 0, data_size = 0\<rparr>,
           \<lparr>path = ''two/model-1.safetensors'',
            data = [CHR 0x08, NUL, NUL, NUL, NUL, NUL, NUL, NUL] @ ''{"a":{}}'',
            file_size = 16, header_size = 8, header_json = ''{"a":{}}'',
            tensors = [\<lparr>name = ''a'', dtype = DTYPE_UNKNOWN, shape = [],
                        data_offset = 0, data_size = 0\<rparr>]\<rparr>)\<close>
  by (simp add: multi_safetensors_find_def example_set_def)

theorem multi_safetensors_find_first_match_witness:
  \<open>multi_safetensors_find example_set ''c'' = None
   \<and> (\<exists>t sf s i. multi_safetensors_find example_set ''a'' = Some (t, sf)
         \<and> path sf = ''two/model-1.safetensors''
         \<and> s < num_shards example_set \<and> shards example_set ! s = sf
         \<and> i < length (tensors sf) \<and> tensors sf ! i = t \<and> strcmp (name t) ''a'' = 0)
   \<and> strcmp ''two/model-1.safetensors'' ''two/model-2.safetensors'' \<le> 0\<close>
proof -
  let ?ta = "\<lparr>name = ''a'', dtype = DTYPE_UNKNOWN, shape = [], data_offset = 0, data_size = 0\<rparr>"
  let ?tb = "\<lparr>name = ''b'', dtype = DTYPE_UNKNOWN, shape = [], data_offset = 0, data_size = 0\<rparr>"
  let ?sf1 = \<open>\<lparr>path = ''two/model-1.safetensors'',
            data = [CHR 0x08, NUL, NUL, NUL, NUL, NUL, NUL, NUL] @ ''{"a":{}}'',
            file_size = 16, header_size = 8, header_json = ''{"a":{}}'',
            tensors = [?ta]\<rparr>\<close>
  let ?sf2 = \<open>\<lparr>path = ''two/model-2.safetensors'',
          data = [CHR 0x0F, NUL, NUL, NUL, NUL, NUL, NUL, NUL] @ ''{"a":{},"b":{}}'',
          file_size = 23, header_size = 15, header_json = ''{"a":{},"b":{}}'',
          tensors = [?ta, ?tb]\<rparr>\<close>
  note thc = multi_safetensors_find_first_match [of example_set "''c''"]
  note tha = multi_safetensors_find_first_match [of example_set "''a''"]
  have nc: "\<forall>sf \<in> set (take (num_shards example_set) (shards example_set)).
              \<forall>t \<in> set (tensors sf). name t \<noteq> ''c''"
    by (simp add: example_set_def)
  have 1: "multi_safetensors_find example_set ''c'' = None"
    using thc [THEN conjunct1] nc by (rule iffD2)
  from tha [THEN conjunct2, THEN conjunct1, rule_format, OF find_example_a]
  obtain s i where si: "s < num_shards example_set" "shards example_set ! s = ?sf1"
    "i < length (tensors ?sf1)" "tensors ?sf1 ! i = ?ta" "strcmp (name ?ta) ''a'' = 0"
    by blast
  have 2: "\<exists>t sf s i. multi_safetensors_find example_set ''a'' = Some (t, sf)
         \<and> path sf = ''two/model-1.safetensors''
         \<and> s < num_shards example_set \<and> shards example_set ! s = sf
         \<and> i < length (tensors sf) \<and> tensors sf ! i = t \<and> strcmp (name t) ''a'' = 0"
  proof -
    have "multi_safetensors_find example_set ''a'' = Some (?ta, ?sf1)
         \<and> path ?sf1 = ''two/model-1.safetensors''
         \<and> s < num_shards example_set \<and> shards example_set ! s = ?sf1
         \<and> i < length (tensors ?sf1) \<and> tensors ?sf1 ! i = ?ta \<and> strcmp (name ?ta) ''a'' = 0"
      using find_example_a si by (intro conjI) simp_all
    then show ?thesis by - (rule exI, rule exI, rule exI, rule exI, assumption)
  qed
  have mem: "?sf2 \<in> set (shards example_set)" by (simp add: example_set_def)
  have has: "\<exists>t' \<in> set (tensors ?sf2). name t' = ''a''" by simp
  have h: "multi_safetensors_open example_limits example_model_fs ''two'' [] =
       (Inr example_set,
        [HeaderBuffer ''two/model-2.safetensors'', PathString ''two/model-2.safetensors'',
         FileStruct ''two/model-2.safetensors'', Mapping ''two/model-2.safetensors'',
         HeaderBuffer ''two/model-1.safetensors'', PathString ''two/model-1.safetensors'',
         FileStruct ''two/model-1.safetensors'', Mapping ''two/model-1.safetensors'',
         SetStruct])
     \<and> multi_safetensors_find example_set ''a'' = Some (?ta, ?sf1)"
    using open_example_two find_example_a by (rule conjI)
  have "strcmp (path ?sf1) (path ?sf2) \<le> 0"
    using tha [THEN conjunct2, THEN conjunct2, rule_format, OF h mem has] .
  then have 3: "strcmp ''two/model-1.safetensors'' ''two/model-2.safetensors'' \<le> 0" by simp
  show ?thesis using 1 2 3 by (intro conjI)
qed

subsection \<open>A shard that fails to open\<close>

text \<open>
  Claim C2 does not hold of the code. In the directory \<open>bad\<close> the first shard in sorted
  order opens and the second fails. \<^verbatim>\<open>multi_safetensors_open\<close> then calls
  \<^verbatim>\<open>multi_safetensors_close\<close>, but \<^verbatim>\<open>num_shards\<close> is assigned only behind the loop and is
  still zero, so the close loop visits no shard: the set structure is freed and the
  mapping, the header copy, the path copy and the file structure of the first shard stay
  live.
\<close>

theorem failed_discovery_leaves_first_shard_open:
  "multi_safetensors_open example_limits example_model_fs ''bad'' [] =
     (Inl IOError,
      [HeaderBuffer ''bad/model-1.safetensors'', PathString ''bad/model-1.safetensors'',
       FileStruct ''bad/model-1.safetensors'', Mapping ''bad/model-1.safetensors''])"
  by (simp add: multi_simps open_simps eval_simps)

subsection \<open>Skipping the value of an unknown key\<close>


























subsection \<open>A shape of more than eight dimensions\<close>

text \<open>
  Claim C3 does not hold of the code. The loop that reads \<^verbatim>\<open>shape\<close> stops once eight
  dimensions are stored and leaves the cursor on the ninth element; the closing bracket
  is consumed only if it stands there. The key loop then asks \<^verbatim>\<open>parse_string\<close> for the
  next key, finds a digit instead of a quote, and the entry fails; with it the whole
  header. An array of exactly eight elements parses.
\<close>

theorem nine_dimensions_fail:
  \<open>parse_tensor_entry ''{"shape":[1,2,3,4,5,6,7,8,9],"dtype":"F32"}''
      \<lparr>name = ''w'', dtype = DTYPE_F32, shape = [], data_offset = 0, data_size = 0\<rparr>
     = Inl FormatError
   \<and> parse_header example_limits ''{"a":{"shape":[1,2,3,4,5,6,7,8,9]},"b":{"dtype":"F32"}}''
     = Inl FormatError
   \<and> entry_value ''shape''
       \<lparr>name = ''w'', dtype = DTYPE_F32, shape = [], data_offset = 0, data_size = 0\<rparr>
       ''[1,2,3,4,5,6,7,8,9],"dtype":"F32"}''
     = Inr (\<lparr>name = ''w'', dtype = DTYPE_F32, shape = [1, 2, 3, 4, 5, 6, 7, 8],
             data_offset = 0, data_size = 0\<rparr>, ''9],"dtype":"F32"}'')
   \<and> parse_tensor_entry ''{"shape":[1,2,3,4,5,6,7,8],"dtype":"F32"}''
      \<lparr>name = ''w'', dtype = DTYPE_F32, shape = [], data_offset = 0, data_size = 0\<rparr>
     = Inr (\<lparr>name = ''w'', dtype = DTYPE_F32, shape = [1, 2, 3, 4, 5, 6, 7, 8],
             data_offset = 0, data_size = 0\<rparr>, [])\<close>
  by (simp add: eval_simps example_limits_def)

end
